theory Spec2Isabelle
  imports Main
begin

section \<open>Responses and the capture-time header\<close>

text \<open>
  The service worker stores \<^verbatim>\<open>Response\<close> objects in named caches and reads one header
  of its own, \<^verbatim>\<open>sw-cached-at\<close>. What \<^verbatim>\<open>isExpired\<close> does with the value of that
  header depends only on which of three kinds of string it is:
  \<^item> the empty string, which is falsy in \<^verbatim>\<open>if (!cachedAt)\<close>;
  \<^item> a non-empty string that \<^verbatim>\<open>new Date(s)\<close> cannot parse, so \<^verbatim>\<open>getTime()\<close> is NaN;
  \<^item> a date string, whose \<^verbatim>\<open>getTime()\<close> is a number of milliseconds.
  \<^verbatim>\<open>new Date().toISOString()\<close> at clock reading \<open>t\<close> is of the third kind and parses back to
  \<open>t\<close>. All times are integers, in milliseconds since the epoch.
\<close>

datatype header_value = EmptyString | InvalidDate | IsoDate int

text \<open>\<^verbatim>\<open>new Date(cachedAt).getTime()\<close>; \<open>None\<close> stands for NaN.\<close>

fun getTime :: "header_value \<Rightarrow> int option" where
  "getTime EmptyString = None"
| "getTime InvalidDate = None"
| "getTime (IsoDate t) = Some t"

text \<open>
  A response: its status, its body, the \<^verbatim>\<open>sw-cached-at\<close> header (\<open>None\<close> when the
  response has no such header), and whether its \<^verbatim>\<open>Vary\<close> header lists \<^verbatim>\<open>*\<close>. Status
  text and all other headers live in the extension part of the record, which every
  function below leaves as it is.
\<close>

record response =
  status :: nat
  body :: string
  sw_cached_at :: "header_value option"
  vary_star :: bool

text \<open>\<^verbatim>\<open>response.ok\<close>: the status is in the range 200-299.\<close>

definition ok :: "'a response_scheme \<Rightarrow> bool" where
  "ok r = (200 \<le> status r \<and> status r \<le> 299)"

text \<open>
  \<^verbatim>\<open>addTimestamp(response)\<close> copies status, status text, headers and body and sets the
  header to the ISO string of the clock reading \<open>now\<close> (\<^verbatim>\<open>new Date()\<close>).
\<close>

definition addTimestamp :: "'a response_scheme \<Rightarrow> int \<Rightarrow> 'a response_scheme" where
  "addTimestamp r now = r\<lparr>sw_cached_at := Some (IsoDate now)\<rparr>"

section \<open>Cache configuration\<close>

text \<open>
  One entry of \<^verbatim>\<open>CACHE_CONFIGS\<close>. A field is \<open>None\<close> when the object does not have it;
  the source tests both fields for truthiness (\<^verbatim>\<open>!config?.maxEntries\<close>), so a missing
  field, a missing object and the number 0 all take the same branch. Limits are natural
  numbers: every value in the source is a positive integer literal.
\<close>

record cache_config =
  maxEntries :: "nat option"
  maxAgeSeconds :: "nat option"

type_synonym cache_configs = "string \<Rightarrow> cache_config option"

definition CACHE_VERSION :: string where "CACHE_VERSION = ''v1''"
definition STATIC_CACHE :: string where "STATIC_CACHE = ''static-assets-cache-'' @ CACHE_VERSION"
definition API_CACHE :: string where "API_CACHE = ''api-cache-'' @ CACHE_VERSION"
definition PAGES_CACHE :: string where "PAGES_CACHE = ''pages-cache-'' @ CACHE_VERSION"
definition FONTS_CACHE :: string where "FONTS_CACHE = ''fonts-cache-'' @ CACHE_VERSION"
definition IMAGES_CACHE :: string where "IMAGES_CACHE = ''images-cache-'' @ CACHE_VERSION"

definition CACHE_CONFIGS :: cache_configs where
  "CACHE_CONFIGS = map_of
     [(STATIC_CACHE, \<lparr>maxEntries = Some 100, maxAgeSeconds = Some (60 * 60 * 24 * 30)\<rparr>),
      (API_CACHE, \<lparr>maxEntries = Some 50, maxAgeSeconds = Some (60 * 60 * 24)\<rparr>),
      (PAGES_CACHE, \<lparr>maxEntries = Some 20, maxAgeSeconds = Some (60 * 60 * 24 * 7)\<rparr>),
      (FONTS_CACHE, \<lparr>maxEntries = Some 20, maxAgeSeconds = Some (60 * 60 * 24 * 365)\<rparr>),
      (IMAGES_CACHE, \<lparr>maxEntries = Some 60, maxAgeSeconds = Some (60 * 60 * 24 * 30)\<rparr>)]"

text \<open>
  \<^verbatim>\<open>config?.maxEntries\<close> and \<^verbatim>\<open>config?.maxAgeSeconds\<close> for
  \<^verbatim>\<open>config = CACHE_CONFIGS[cacheName]\<close>: \<open>None\<close> is \<^verbatim>\<open>undefined\<close>.
\<close>

definition config_maxEntries :: "cache_configs \<Rightarrow> string \<Rightarrow> nat option" where
  "config_maxEntries cfgs cacheName =
     (case cfgs cacheName of None \<Rightarrow> None | Some config \<Rightarrow> maxEntries config)"

definition config_maxAgeSeconds :: "cache_configs \<Rightarrow> string \<Rightarrow> nat option" where
  "config_maxAgeSeconds cfgs cacheName =
     (case cfgs cacheName of None \<Rightarrow> None | Some config \<Rightarrow> maxAgeSeconds config)"

section \<open>Expiry\<close>

text \<open>
  \<^verbatim>\<open>isExpired(response, cacheName)\<close>, with the configuration table and the reading of
  \<^verbatim>\<open>Date.now()\<close> as arguments. A comparison with NaN is false.
\<close>

definition isExpired :: "cache_configs \<Rightarrow> 'a response_scheme \<Rightarrow> string \<Rightarrow> int \<Rightarrow> bool" where
  "isExpired cfgs response cacheName now =
     (case sw_cached_at response of
        None \<Rightarrow> False
      | Some cachedAt \<Rightarrow>
          if cachedAt = EmptyString then False
          else (case config_maxAgeSeconds cfgs cacheName of
                  None \<Rightarrow> False
                | Some maxAge \<Rightarrow>
                    if maxAge = 0 then False
                    else (case getTime cachedAt of
                            None \<Rightarrow> False
                          | Some cachedTime \<Rightarrow> now - cachedTime > int maxAge * 1000)))"

section \<open>One cache of the Cache API\<close>

text \<open>
  A \<^verbatim>\<open>Cache\<close> is the browser's request-to-response list, kept in insertion order. The
  operations follow the Cache API: \<^verbatim>\<open>match\<close> gives the first entry stored under the
  request, \<^verbatim>\<open>put\<close> removes what is stored under the request and appends the new pair,
  \<^verbatim>\<open>delete\<close> removes what is stored under the request, \<^verbatim>\<open>keys\<close> lists the requests
  in insertion order. Requests are compared by identity of the key \<open>'k\<close> (method and URL).
  \<^verbatim>\<open>put\<close> refuses some responses, see \<open>put_rejects\<close> below; apart from that the
  storage behind the cache is taken to work (no quota or I/O failure).
\<close>

type_synonym ('k, 'r) cache = "('k \<times> 'r) list"

definition cache_match :: "('k, 'r) cache \<Rightarrow> 'k \<Rightarrow> 'r option" where
  "cache_match cache request = map_of cache request"

definition cache_delete :: "('k, 'r) cache \<Rightarrow> 'k \<Rightarrow> ('k, 'r) cache" where
  "cache_delete cache request = filter (\<lambda>e. fst e \<noteq> request) cache"

definition cache_put :: "('k, 'r) cache \<Rightarrow> 'k \<Rightarrow> 'r \<Rightarrow> ('k, 'r) cache" where
  "cache_put cache request r = cache_delete cache request @ [(request, r)]"

definition cache_keys :: "('k, 'r) cache \<Rightarrow> 'k list" where
  "cache_keys cache = map fst cache"

text \<open>
  \<^verbatim>\<open>cache.put(request, response)\<close> rejects with a \<^verbatim>\<open>TypeError\<close>, and stores nothing, when
  the response has status 206 (partial content) or a \<^verbatim>\<open>Vary\<close> header that lists \<^verbatim>\<open>*\<close>.
  The requests the strategies see are \<^verbatim>\<open>GET\<close> requests over http(s), which \<^verbatim>\<open>put\<close>
  accepts. \<open>cache_put\<close> above is what an accepted \<^verbatim>\<open>put\<close> does.
\<close>

definition put_rejects :: "'a response_scheme \<Rightarrow> bool" where
  "put_rejects r = (status r = 206 \<or> vary_star r)"

text \<open>
  \<^verbatim>\<open>enforceMaxEntries(cache, cacheName)\<close>: the loop deletes \<^verbatim>\<open>keys[0]\<close>, ...,
  \<^verbatim>\<open>keys[entriesToRemove - 1]\<close> of the snapshot \<^verbatim>\<open>keys\<close> taken before it starts.
\<close>

definition enforceMaxEntries :: "cache_configs \<Rightarrow> ('k, 'r) cache \<Rightarrow> string \<Rightarrow> ('k, 'r) cache" where
  "enforceMaxEntries cfgs cache cacheName =
     (case config_maxEntries cfgs cacheName of
        None \<Rightarrow> cache
      | Some limit \<Rightarrow>
          if limit = 0 then cache
          else let keys = cache_keys cache in
            if length keys \<le> limit then cache
            else let entriesToRemove = length keys - limit in
              fold (\<lambda>request c. cache_delete c request) (take entriesToRemove keys) cache)"

text \<open>
  The three lines every strategy runs on a successful network response:
  \<^verbatim>\<open>addTimestamp(networkResponse.clone())\<close>, \<^verbatim>\<open>cache.put\<close>, \<^verbatim>\<open>enforceMaxEntries\<close>,
  when \<^verbatim>\<open>put\<close> accepts the response; the strategies below say what happens when it
  does not. \<open>now\<close> is the clock reading taken by \<^verbatim>\<open>addTimestamp\<close>.
\<close>

definition cacheResponse ::
  "cache_configs \<Rightarrow> ('k, 'a response_scheme) cache \<Rightarrow> string \<Rightarrow> 'k \<Rightarrow> 'a response_scheme \<Rightarrow> int
     \<Rightarrow> ('k, 'a response_scheme) cache" where
  "cacheResponse cfgs cache cacheName request networkResponse now =
     (let responseToCache = addTimestamp networkResponse now;
          cache' = cache_put cache request responseToCache
      in enforceMaxEntries cfgs cache' cacheName)"

text \<open>
  A sequence of such writes into one cache, each with its request, its network response
  and the clock reading of its stamp.
\<close>

fun cacheResponses ::
  "cache_configs \<Rightarrow> ('k, 'a response_scheme) cache \<Rightarrow> string \<Rightarrow> ('k \<times> 'a response_scheme \<times> int) list
     \<Rightarrow> ('k, 'a response_scheme) cache" where
  "cacheResponses cfgs cache cacheName [] = cache"
| "cacheResponses cfgs cache cacheName ((request, networkResponse, now) # rest) =
     cacheResponses cfgs (cacheResponse cfgs cache cacheName request networkResponse now)
       cacheName rest"

section \<open>The network and the result of a strategy\<close>

text \<open>
  \<^verbatim>\<open>fetch(request)\<close> either settles some milliseconds after it was started, fulfilled
  with a response or rejected with an error, or it never settles. The other errors a
  strategy can see are the \<^verbatim>\<open>new Error('Network timeout')\<close> of the timer in
  \<^verbatim>\<open>networkFirstStrategy\<close> and the \<^verbatim>\<open>TypeError\<close> of a rejected \<^verbatim>\<open>cache.put\<close>.
\<close>

datatype error = NetworkTimeout | FetchError string | PutRejected

datatype 'r settlement = Fulfilled 'r | Rejected error

datatype 'r fetch_run = Settles nat "'r settlement" | NeverSettles

text \<open>
  What the caller of an \<^verbatim>\<open>async\<close> strategy gets: a response, \<^verbatim>\<open>undefined\<close>, a
  thrown error, or nothing because the promise it awaits never settles.
\<close>

datatype 'r completion = Returns 'r | ReturnsUndefined | Throws error | NoReturn

datatype log_line = ConsoleError string error | ConsoleWarn string error

text \<open>
  One run of a strategy: what the caller gets, the cache once every promise the run
  started has settled, the number of \<^verbatim>\<open>fetch\<close> calls made and the console lines written.
\<close>

record ('k, 'r) run =
  result :: "'r completion"
  cache_after :: "('k, 'r) cache"
  fetch_calls :: nat
  console :: "log_line list"

text \<open>
  The test \<^verbatim>\<open>cachedResponse && !isExpired(cachedResponse, cacheName)\<close> of the cache-first
  and stale-while-revalidate strategies: the cached response when the test passes.
\<close>

definition freshResponse ::
  "cache_configs \<Rightarrow> ('k, 'a response_scheme) cache \<Rightarrow> 'k \<Rightarrow> string \<Rightarrow> int
     \<Rightarrow> 'a response_scheme option" where
  "freshResponse cfgs cache request cacheName now =
     (case cache_match cache request of
        None \<Rightarrow> None
      | Some cachedResponse \<Rightarrow>
          if \<not> isExpired cfgs cachedResponse cacheName now then Some cachedResponse else None)"

section \<open>Cache-first\<close>

text \<open>
  The \<^verbatim>\<open>catch\<close> block of \<^verbatim>\<open>cacheFirstStrategy\<close>: it logs the error, looks the request up
  again and returns whatever is stored, expired or not; with nothing stored it rethrows.
  In the model it is reached after the one \<^verbatim>\<open>fetch\<close> call of the run.
\<close>

definition cacheFirst_catch ::
  "('k, 'r) cache \<Rightarrow> 'k \<Rightarrow> error \<Rightarrow> ('k, 'r) run" where
  "cacheFirst_catch cache request err =
     \<lparr>result =
        (case cache_match cache request of
           Some staleResponse \<Rightarrow> Returns staleResponse
         | None \<Rightarrow> Throws err),
      cache_after = cache, fetch_calls = 1,
      console = [ConsoleError ''Cache-first strategy failed:'' err]\<rparr>"

text \<open>
  \<^verbatim>\<open>cacheFirstStrategy(request, cacheName)\<close> on the opened cache. \<open>now\<close> is the clock
  reading of \<^verbatim>\<open>isExpired\<close>, \<open>net\<close> says how \<^verbatim>\<open>fetch(request)\<close> goes, \<open>stamp\<close> is the
  clock reading of \<^verbatim>\<open>addTimestamp\<close>. The \<^verbatim>\<open>try\<close> block holds the fetch and the
  \<^verbatim>\<open>cache.put\<close>, so a rejected fetch and a rejected \<^verbatim>\<open>put\<close> both land in the
  \<^verbatim>\<open>catch\<close> block.
\<close>

definition cacheFirstStrategy ::
  "cache_configs \<Rightarrow> ('k, 'a response_scheme) cache \<Rightarrow> 'k \<Rightarrow> string \<Rightarrow> int
     \<Rightarrow> 'a response_scheme fetch_run \<Rightarrow> int \<Rightarrow> ('k, 'a response_scheme) run" where
  "cacheFirstStrategy cfgs cache request cacheName now net stamp =
     (case freshResponse cfgs cache request cacheName now of
        Some cachedResponse \<Rightarrow>
          \<lparr>result = Returns cachedResponse, cache_after = cache, fetch_calls = 0, console = []\<rparr>
      | None \<Rightarrow>
          (case net of
             Settles t (Fulfilled networkResponse) \<Rightarrow>
               if ok networkResponse
               then (let responseToCache = addTimestamp networkResponse stamp in
                     if put_rejects responseToCache
                     then cacheFirst_catch cache request PutRejected
                     else \<lparr>result = Returns networkResponse,
                           cache_after =
                             cacheResponse cfgs cache cacheName request networkResponse stamp,
                           fetch_calls = 1, console = []\<rparr>)
               else \<lparr>result = Returns networkResponse, cache_after = cache, fetch_calls = 1,
                     console = []\<rparr>
           | Settles t (Rejected err) \<Rightarrow> cacheFirst_catch cache request err
           | NeverSettles \<Rightarrow>
               \<lparr>result = NoReturn, cache_after = cache, fetch_calls = 1, console = []\<rparr>))"

section \<open>Network-first with timeout\<close>

text \<open>
  \<^verbatim>\<open>Promise.race([networkPromise, timeoutPromise])\<close>: the timer rejects \<open>timeout\<close>
  milliseconds after it was created. The fetch is started before the timer is created, so
  a fetch that settles within \<open>timeout\<close> milliseconds, the last one included, settles the
  race; otherwise the timer does. Nothing else is attached to \<^verbatim>\<open>networkPromise\<close>: when
  the timer wins, whatever the fetch does later has no observer.
\<close>

definition Promise_race :: "'r fetch_run \<Rightarrow> nat \<Rightarrow> 'r settlement" where
  "Promise_race net timeout =
     (case net of
        Settles t outcome \<Rightarrow> if t \<le> timeout then outcome else Rejected NetworkTimeout
      | NeverSettles \<Rightarrow> Rejected NetworkTimeout)"

text \<open>
  The inner \<^verbatim>\<open>catch (networkError)\<close> of \<^verbatim>\<open>networkFirstStrategy\<close>: it returns the stored
  response without asking \<^verbatim>\<open>isExpired\<close>, and with nothing stored it rethrows to the outer
  \<^verbatim>\<open>catch\<close>, which logs and rethrows.
\<close>

definition networkFirst_catch ::
  "('k, 'r) cache \<Rightarrow> 'k \<Rightarrow> error \<Rightarrow> ('k, 'r) run" where
  "networkFirst_catch cache request networkError =
     (case cache_match cache request of
        Some cachedResponse \<Rightarrow>
          \<lparr>result = Returns cachedResponse, cache_after = cache, fetch_calls = 1, console = []\<rparr>
      | None \<Rightarrow>
          \<lparr>result = Throws networkError, cache_after = cache, fetch_calls = 1,
           console = [ConsoleError ''Network-first strategy failed:'' networkError]\<rparr>)"

text \<open>
  \<^verbatim>\<open>networkFirstStrategy(request, cacheName, timeout = 3000)\<close>; \<open>timeout_arg = None\<close> is
  a call without the third argument. The inner \<^verbatim>\<open>try\<close> block holds the race and the
  \<^verbatim>\<open>cache.put\<close>, so a lost race, a rejected fetch and a rejected \<^verbatim>\<open>put\<close> all land in
  the inner \<^verbatim>\<open>catch\<close>.
\<close>

definition networkFirstStrategy ::
  "cache_configs \<Rightarrow> ('k, 'a response_scheme) cache \<Rightarrow> 'k \<Rightarrow> string \<Rightarrow> nat option
     \<Rightarrow> 'a response_scheme fetch_run \<Rightarrow> int \<Rightarrow> ('k, 'a response_scheme) run" where
  "networkFirstStrategy cfgs cache request cacheName timeout_arg net stamp =
     (let timeout = (case timeout_arg of None \<Rightarrow> 3000 | Some ms \<Rightarrow> ms) in
      case Promise_race net timeout of
        Fulfilled networkResponse \<Rightarrow>
          if ok networkResponse
          then (let responseToCache = addTimestamp networkResponse stamp in
                if put_rejects responseToCache
                then networkFirst_catch cache request PutRejected
                else \<lparr>result = Returns networkResponse,
                      cache_after =
                        cacheResponse cfgs cache cacheName request networkResponse stamp,
                      fetch_calls = 1, console = []\<rparr>)
          else \<lparr>result = Returns networkResponse, cache_after = cache, fetch_calls = 1,
                console = []\<rparr>
      | Rejected networkError \<Rightarrow> networkFirst_catch cache request networkError)"

section \<open>Stale-while-revalidate\<close>

text \<open>
  \<^verbatim>\<open>networkPromise\<close> of \<^verbatim>\<open>staleWhileRevalidateStrategy\<close>: the fetch with its
  \<^verbatim>\<open>then\<close> and \<^verbatim>\<open>catch\<close> handlers. The triple is what the promise settles to, the cache
  once it has settled, and the console lines. The \<^verbatim>\<open>catch\<close> handler logs a warning and
  returns nothing, so a rejected fetch, and a \<^verbatim>\<open>cache.put\<close> rejected inside the
  \<^verbatim>\<open>then\<close> handler, fulfil \<^verbatim>\<open>networkPromise\<close> with \<^verbatim>\<open>undefined\<close>.
\<close>

definition networkPromise ::
  "cache_configs \<Rightarrow> ('k, 'a response_scheme) cache \<Rightarrow> 'k \<Rightarrow> string
     \<Rightarrow> 'a response_scheme fetch_run \<Rightarrow> int
     \<Rightarrow> 'a response_scheme completion \<times> ('k, 'a response_scheme) cache \<times> log_line list" where
  "networkPromise cfgs cache request cacheName net stamp =
     (case net of
        Settles t (Fulfilled networkResponse) \<Rightarrow>
          if ok networkResponse
          then (let responseToCache = addTimestamp networkResponse stamp in
                if put_rejects responseToCache
                then (ReturnsUndefined, cache,
                      [ConsoleWarn ''Background update failed:'' PutRejected])
                else (Returns networkResponse,
                      cacheResponse cfgs cache cacheName request networkResponse stamp, []))
          else (Returns networkResponse, cache, [])
      | Settles t (Rejected err) \<Rightarrow>
          (ReturnsUndefined, cache, [ConsoleWarn ''Background update failed:'' err])
      | NeverSettles \<Rightarrow> (NoReturn, cache, []))"

text \<open>
  \<^verbatim>\<open>staleWhileRevalidateStrategy(request, cacheName)\<close>: the fetch is started in every
  run; a fresh cached response is returned at once, otherwise the caller awaits
  \<^verbatim>\<open>networkPromise\<close>.
\<close>

definition staleWhileRevalidateStrategy ::
  "cache_configs \<Rightarrow> ('k, 'a response_scheme) cache \<Rightarrow> 'k \<Rightarrow> string \<Rightarrow> int
     \<Rightarrow> 'a response_scheme fetch_run \<Rightarrow> int \<Rightarrow> ('k, 'a response_scheme) run" where
  "staleWhileRevalidateStrategy cfgs cache request cacheName now net stamp =
     (case networkPromise cfgs cache request cacheName net stamp of
        (settled, cache', lines) \<Rightarrow>
          (case freshResponse cfgs cache request cacheName now of
             Some cachedResponse \<Rightarrow>
               \<lparr>result = Returns cachedResponse, cache_after = cache', fetch_calls = 1,
                console = lines\<rparr>
           | None \<Rightarrow>
               \<lparr>result = settled, cache_after = cache', fetch_calls = 1, console = lines\<rparr>))"

section \<open>The cleanup sweep\<close>

text \<open>
  \<^verbatim>\<open>CacheStorage\<close> is the list of named caches in creation order. The inner loop of
  \<^verbatim>\<open>cleanupCaches\<close> walks the snapshot \<^verbatim>\<open>keys\<close> of one cache; \<open>clock request\<close> is the
  reading of \<^verbatim>\<open>Date.now()\<close> when \<^verbatim>\<open>isExpired\<close> is asked about that request.
\<close>

type_synonym ('k, 'r) cache_storage = "(string \<times> ('k, 'r) cache) list"

definition cleanupCache ::
  "cache_configs \<Rightarrow> string \<Rightarrow> ('k \<Rightarrow> int) \<Rightarrow> ('k, 'a response_scheme) cache
     \<Rightarrow> ('k, 'a response_scheme) cache" where
  "cleanupCache cfgs cacheName clock cache =
     fold (\<lambda>request c.
             case cache_match c request of
               None \<Rightarrow> c
             | Some response \<Rightarrow>
                 if isExpired cfgs response cacheName (clock request)
                 then cache_delete c request else c)
          (cache_keys cache) cache"

text \<open>
  \<^verbatim>\<open>cleanupCaches()\<close>: caches without an entry in \<^verbatim>\<open>CACHE_CONFIGS\<close> are skipped.
\<close>

definition cleanupCaches ::
  "cache_configs \<Rightarrow> (string \<Rightarrow> 'k \<Rightarrow> int) \<Rightarrow> ('k, 'a response_scheme) cache_storage
     \<Rightarrow> ('k, 'a response_scheme) cache_storage" where
  "cleanupCaches cfgs clock storage =
     map (\<lambda>(cacheName, cache).
            case cfgs cacheName of
              None \<Rightarrow> (cacheName, cache)
            | Some config \<Rightarrow> (cacheName, cleanupCache cfgs cacheName (clock cacheName) cache))
         storage"

section \<open>The offline sync queue\<close>

text \<open>
  Modelled from the spec: the sync queue and its drain driver. The sources hold the test
  of the storage layer of \<^verbatim>\<open>@/lib/offline\<close> and the shape of a queue item, not the code
  that retries, so the definitions of this section follow sections 3 and 4.4 of the
  specification: an item is enqueued as pending with no retries; processing marks it
  syncing and attempts it; a success completes it, and a completed item is removed; a
  failure increments \<open>retryCount\<close> and reschedules it, or leaves it failed once
  \<open>retryCount\<close> reaches \<open>maxRetries\<close>; \<open>retryCount\<close> is never pushed past \<open>maxRetries\<close>.
\<close>

datatype queue_status = Pending | Syncing | Completed | Failed

record queue_item =
  item_id :: string
  item_type :: string
  payload :: string
  timestamp :: int
  retryCount :: nat
  maxRetries :: nat
  item_status :: queue_status
  item_error :: "string option"

type_synonym queue = "queue_item list"

text \<open>Modelled from the spec: \<^verbatim>\<open>enqueue(item)\<close> persists the item under its id, at the back.\<close>

definition enqueue :: "queue_item \<Rightarrow> queue \<Rightarrow> queue" where
  "enqueue item q =
     filter (\<lambda>i. item_id i \<noteq> item_id item) q @ [item\<lparr>retryCount := 0, item_status := Pending\<rparr>]"

text \<open>
  Modelled from the spec: the transition out of \<open>Syncing\<close> after one attempt; \<open>None\<close> is
  the completed item, which leaves the queue.
\<close>

definition attempt :: "bool \<Rightarrow> queue_item \<Rightarrow> queue_item option" where
  "attempt success item =
     (if success then None
      else if retryCount item < maxRetries item
      then (let n = retryCount item + 1
            in Some (item\<lparr>retryCount := n,
                           item_status := (if n = maxRetries item then Failed else Pending),
                           item_error := Some ''network''\<rparr>))
      else Some (item\<lparr>item_status := Failed, item_error := Some ''network''\<rparr>))"

text \<open>
  Modelled from the spec: one item under drain, given the outcomes of its successive
  attempts (\<open>True\<close> is a success). Only a pending item is attempted.
\<close>

fun processItem :: "bool list \<Rightarrow> queue_item \<Rightarrow> queue_item option" where
  "processItem [] item = Some item"
| "processItem (success # rest) item =
     (if item_status item \<noteq> Pending then Some item
      else (case attempt success (item\<lparr>item_status := Syncing\<rparr>) of
              None \<Rightarrow> None
            | Some item' \<Rightarrow> processItem rest item'))"

text \<open>Modelled from the spec: \<^verbatim>\<open>drain()\<close>, in queue order; \<open>outcomes\<close> gives each id its attempts.\<close>

definition drain :: "(string \<Rightarrow> bool list) \<Rightarrow> queue \<Rightarrow> queue" where
  "drain outcomes q = List.map_filter (\<lambda>item. processItem (outcomes (item_id item)) item) q"

text \<open>Modelled from the spec: \<^verbatim>\<open>remove(id)\<close>, explicit deletion of one item.\<close>

definition remove_item :: "string \<Rightarrow> queue \<Rightarrow> queue" where
  "remove_item i q = filter (\<lambda>item. item_id item \<noteq> i) q"

text \<open>Modelled from the spec: \<^verbatim>\<open>clear()\<close>, explicit deletion of every item.\<close>

definition clear :: "queue \<Rightarrow> queue" where
  "clear q = []"

text \<open>
  Modelled from the spec: the restart rule of section 5, an item found syncing at startup is
  pending again.
\<close>

definition restart :: "queue \<Rightarrow> queue" where
  "restart q = map (\<lambda>item. if item_status item = Syncing then item\<lparr>item_status := Pending\<rparr> else item) q"

text \<open>
  Modelled from the spec: the operations of the queue as one datatype, and the queue that a
  sequence of them builds from the empty one.
\<close>

datatype queue_op =
  Enqueue queue_item | Drain "string \<Rightarrow> bool list" | Remove string | Clear | Restart

fun queue_step :: "queue \<Rightarrow> queue_op \<Rightarrow> queue" where
  "queue_step q (Enqueue item) = enqueue item q"
| "queue_step q (Drain outcomes) = drain outcomes q"
| "queue_step q (Remove i) = remove_item i q"
| "queue_step q Clear = clear q"
| "queue_step q Restart = restart q"

definition queue_run :: "queue_op list \<Rightarrow> queue" where
  "queue_run ops = foldl queue_step [] ops"

section \<open>Conversations in the persistent store\<close>

text \<open>
  Modelled from the spec: \<^verbatim>\<open>getConversation\<close> and \<^verbatim>\<open>storeConversation\<close> of
  \<^verbatim>\<open>@/lib/offline/storage\<close>, of which the sources hold only the test. Following sections
  4.1 and 6 of the specification, the store is a collection keyed by conversation id;
  an operation fails with a store error when the store does (\<open>fault\<close>), and otherwise
  \<^verbatim>\<open>get\<close> on a key that is not there gives the absent result, which \<^verbatim>\<open>getConversation\<close>
  passes on as \<^verbatim>\<open>null\<close> (\<open>Inr None\<close>).
\<close>

datatype store_error = StoreError string

datatype sync_status = Synced | PendingSync | Conflict

record cached_conversation =
  conversation_id :: string
  thread :: string
  lastModified :: int
  syncStatus :: sync_status

type_synonym conversations = "string \<Rightarrow> cached_conversation option"

text \<open>
  Modelled from the spec: \<^verbatim>\<open>storeConversation(conv)\<close> puts the conversation under its id,
  replacing what was stored there.
\<close>

definition storeConversation ::
  "store_error option \<Rightarrow> conversations \<Rightarrow> cached_conversation \<Rightarrow> store_error + conversations" where
  "storeConversation fault store conversation =
     (case fault of
        Some e \<Rightarrow> Inl e
      | None \<Rightarrow> Inr (store(conversation_id conversation \<mapsto> conversation)))"

text \<open>
  Modelled from the spec: \<^verbatim>\<open>getConversation(id)\<close> gives the stored conversation, or
  \<^verbatim>\<open>null\<close> when \<^verbatim>\<open>get\<close> reports the id absent.
\<close>

definition getConversation ::
  "store_error option \<Rightarrow> conversations \<Rightarrow> string \<Rightarrow> store_error + cached_conversation option" where
  "getConversation fault store i =
     (case fault of
        Some e \<Rightarrow> Inl e
      | None \<Rightarrow> (case store i of None \<Rightarrow> Inr None | Some conversation \<Rightarrow> Inr (Some conversation)))"

section \<open>Basic facts about a cache\<close>

lemma fold_cache_delete:
  "fold (\<lambda>request c. cache_delete c request) ks cache = filter (\<lambda>e. fst e \<notin> set ks) cache"
  unfolding cache_delete_def
proof (induction ks arbitrary: cache)
  case Nil
  show ?case by simp
next
  case (Cons k ks)
  show ?case by (simp add: Cons.IH conj_commute)
qed

lemma filter_take_keys:
  "distinct (map fst cache) \<Longrightarrow>
   filter (\<lambda>e. fst e \<notin> set (take n (map fst cache))) cache = drop n cache"
proof (induction cache arbitrary: n)
  case Nil
  show ?case by simp
next
  case (Cons e cache)
  show ?case
  proof (cases n)
    case 0
    then show ?thesis by simp
  next
    case (Suc m)
    have notin: "fst e \<notin> fst ` set cache" using Cons.prems by simp
    have "filter (\<lambda>x. fst x \<noteq> fst e \<and> fst x \<notin> set (take m (map fst cache))) cache
          = filter (\<lambda>x. fst x \<notin> set (take m (map fst cache))) cache"
      using notin by (intro filter_cong refl) (metis imageI)
    also have "\<dots> = drop m cache" using Cons.prems by (simp add: Cons.IH)
    finally show ?thesis using Suc by simp
  qed
qed

lemma evict_oldest:
  "distinct (map fst cache) \<Longrightarrow>
   fold (\<lambda>request c. cache_delete c request) (take n (cache_keys cache)) cache = drop n cache"
  by (simp add: fold_cache_delete cache_keys_def filter_take_keys)

lemma distinct_cache_put:
  "distinct (map fst cache) \<Longrightarrow> distinct (map fst (cache_put cache request r))"
  by (auto simp: cache_put_def cache_delete_def distinct_map_filter)

lemma map_of_filter_neq:
  "map_of (filter (\<lambda>e. fst e \<noteq> k') xs) k = (if k = k' then None else map_of xs k)"
  by (induction xs) auto

lemma map_of_filter_notin:
  "map_of (filter (\<lambda>e. fst e \<notin> S) xs) k = (if k \<in> S then None else map_of xs k)"
  by (induction xs) auto

lemma cache_match_put:
  "cache_match (cache_put cache request r) request' =
     (if request' = request then Some r else cache_match cache request')"
  by (simp add: cache_match_def cache_put_def cache_delete_def map_of_filter_neq map_add_def
        split: option.split)

lemma length_cache_keys: "length (cache_keys cache) = length cache"
  by (simp add: cache_keys_def)

lemma enforceMaxEntries_truthy:
  assumes "config_maxEntries cfgs cacheName = Some limit" "0 < limit" "distinct (map fst cache)"
  shows "enforceMaxEntries cfgs cache cacheName = drop (length cache - limit) cache"
  using assms by (simp add: enforceMaxEntries_def Let_def evict_oldest length_cache_keys)

lemma enforceMaxEntries_falsy:
  "config_maxEntries cfgs cacheName = None \<or> config_maxEntries cfgs cacheName = Some 0 \<Longrightarrow>
   enforceMaxEntries cfgs cache cacheName = cache"
  by (auto simp: enforceMaxEntries_def)

lemma enforceMaxEntries_drop:
  assumes "distinct (map fst cache)"
  shows "\<exists>n. (n < length cache \<or> n = 0) \<and> enforceMaxEntries cfgs cache cacheName = drop n cache"
proof (cases "config_maxEntries cfgs cacheName")
  case None
  then have "enforceMaxEntries cfgs cache cacheName = drop 0 cache"
    by (simp add: enforceMaxEntries_falsy)
  then show ?thesis by blast
next
  case (Some limit)
  show ?thesis
  proof (cases "limit = 0")
    case True
    with Some have "enforceMaxEntries cfgs cache cacheName = drop 0 cache"
      by (simp add: enforceMaxEntries_falsy)
    then show ?thesis by blast
  next
    case False
    with Some assms
    have "enforceMaxEntries cfgs cache cacheName = drop (length cache - limit) cache"
      by (simp add: enforceMaxEntries_truthy)
    moreover have "length cache - limit < length cache \<or> length cache - limit = 0"
      using False by arith
    ultimately show ?thesis by blast
  qed
qed

lemma distinct_enforceMaxEntries:
  assumes "distinct (map fst cache)"
  shows "distinct (map fst (enforceMaxEntries cfgs cache cacheName))"
proof -
  obtain n where "enforceMaxEntries cfgs cache cacheName = drop n cache"
    using enforceMaxEntries_drop [OF assms] by blast
  then show ?thesis using assms by (simp add: drop_map [symmetric] distinct_drop)
qed

lemma distinct_cacheResponse:
  "distinct (map fst cache) \<Longrightarrow>
   distinct (map fst (cacheResponse cfgs cache cacheName request r now))"
  by (simp add: cacheResponse_def Let_def distinct_enforceMaxEntries distinct_cache_put)

lemma request_not_evicted:
  assumes "0 < limit"
  shows "request \<notin> set (take (length (cache_put cache request r) - limit)
                         (cache_keys (cache_put cache request r)))"
proof -
  let ?old = "map fst (cache_delete cache request)"
  have keys: "cache_keys (cache_put cache request r) = ?old @ [request]"
    by (simp add: cache_keys_def cache_put_def)
  have len: "length (cache_put cache request r) - limit \<le> length ?old"
    using assms by (simp add: cache_put_def)
  have "request \<notin> set ?old" by (auto simp: cache_delete_def)
  then have "request \<notin> set (take (length (cache_put cache request r) - limit) ?old)"
    by (meson in_set_takeD)
  then show ?thesis using keys len by simp
qed

lemma cache_match_enforce_put:
  "cache_match (enforceMaxEntries cfgs (cache_put cache request r) cacheName) request = Some r"
proof (cases "config_maxEntries cfgs cacheName")
  case None
  then show ?thesis by (simp add: enforceMaxEntries_def cache_match_put)
next
  case (Some limit)
  show ?thesis
  proof (cases "limit = 0 \<or> length (cache_put cache request r) \<le> limit")
    case True
    with Some show ?thesis
      by (auto simp: enforceMaxEntries_def Let_def length_cache_keys cache_match_put)
  next
    case False
    then have pos: "0 < limit" by simp
    have "cache_match (enforceMaxEntries cfgs (cache_put cache request r) cacheName) request
          = map_of (filter (\<lambda>e. fst e \<notin> set (take (length (cache_put cache request r) - limit)
                                  (cache_keys (cache_put cache request r))))
                      (cache_put cache request r)) request"
      using Some False
      by (simp add: enforceMaxEntries_def Let_def length_cache_keys fold_cache_delete
            cache_match_def)
    also have "\<dots> = map_of (cache_put cache request r) request"
      using request_not_evicted [OF pos, where request = request and cache = cache and r = r]
      by (simp add: map_of_filter_notin)
    also have "\<dots> = Some r"
      using cache_match_put [of cache request r request] by (simp add: cache_match_def)
    finally show ?thesis .
  qed
qed

lemma cache_match_cacheResponse:
  "cache_match (cacheResponse cfgs cache cacheName request r now) request
     = Some (addTimestamp r now)"
  by (simp add: cacheResponse_def Let_def cache_match_enforce_put)

lemma put_rejects_addTimestamp: "put_rejects (addTimestamp r now) = put_rejects r"
  by (simp add: put_rejects_def addTimestamp_def)

lemma cacheResponse_unlimited:
  assumes "config_maxEntries cfgs cacheName = None \<or> config_maxEntries cfgs cacheName = Some 0"
  shows "cacheResponse cfgs cache cacheName request r now
           = filter (\<lambda>e. fst e \<noteq> request) cache
               @ [(request, r\<lparr>sw_cached_at := Some (IsoDate now)\<rparr>)]"
  using assms
  by (simp add: cacheResponse_def Let_def enforceMaxEntries_falsy cache_put_def cache_delete_def
        addTimestamp_def)

lemma cacheResponse_limited:
  assumes "distinct (map fst cache)" "config_maxEntries cfgs cacheName = Some limit" "limit \<noteq> 0"
  shows "cacheResponse cfgs cache cacheName request r now
           = drop (length (filter (\<lambda>e. fst e \<noteq> request) cache
                             @ [(request, r\<lparr>sw_cached_at := Some (IsoDate now)\<rparr>)]) - limit)
               (filter (\<lambda>e. fst e \<noteq> request) cache
                  @ [(request, r\<lparr>sw_cached_at := Some (IsoDate now)\<rparr>)])"
proof -
  have "distinct (map fst (cache_put cache request (addTimestamp r now)))"
    using assms(1) by (rule distinct_cache_put)
  then have "cacheResponse cfgs cache cacheName request r now
      = drop (length (cache_put cache request (addTimestamp r now)) - limit)
          (cache_put cache request (addTimestamp r now))"
    using assms(2,3) by (simp add: cacheResponse_def Let_def enforceMaxEntries_truthy)
  then show ?thesis by (simp add: cache_put_def cache_delete_def addTimestamp_def)
qed

section \<open>Claims about expiry\<close>

text \<open>
  What the truthiness test on \<^verbatim>\<open>maxAgeSeconds\<close> does to a table configured with a maximum
  age of 0 seconds: an entry stamped 5000 ms ago is older than 0 seconds, and is not expired.
\<close>

theorem isExpired_zero_max_age_counterexample:
  "\<not> (isExpired (\<lambda>n. Some \<lparr>maxEntries = Some 2, maxAgeSeconds = Some 0\<rparr>)
          \<lparr>status = 200, body = ''x'', sw_cached_at = Some (IsoDate 0), vary_star = False\<rparr> ''t'' 5000
        \<longleftrightarrow> 5000 - 0 > int 0 * 1000)"
  by (simp add: isExpired_def config_maxAgeSeconds_def)

text \<open>
  C5, as the code has it: \<^verbatim>\<open>isExpired\<close> is true exactly when the response carries a
  capture time, the table's \<^verbatim>\<open>maxAgeSeconds\<close> is configured and not 0, and the age
  \<open>now - cachedTime\<close> in milliseconds exceeds \<^verbatim>\<open>maxAgeSeconds * 1000\<close>. For a table with no
  configured maximum age, or with 0, it is false for every response and every clock reading.
\<close>

theorem isExpired_characterisation:
  "(isExpired cfgs response cacheName now \<longleftrightarrow>
      (\<exists>cachedTime maxAge.
          sw_cached_at response = Some (IsoDate cachedTime) \<and>
          config_maxAgeSeconds cfgs cacheName = Some maxAge \<and> maxAge \<noteq> 0 \<and>
          now - cachedTime > int maxAge * 1000))
   \<and> (config_maxAgeSeconds cfgs cacheName = None \<or> config_maxAgeSeconds cfgs cacheName = Some 0
        \<longrightarrow> \<not> isExpired cfgs response cacheName now)"
proof -
  have iff: "isExpired cfgs response cacheName now \<longleftrightarrow>
      (\<exists>cachedTime maxAge.
          sw_cached_at response = Some (IsoDate cachedTime) \<and>
          config_maxAgeSeconds cfgs cacheName = Some maxAge \<and> maxAge \<noteq> 0 \<and>
          now - cachedTime > int maxAge * 1000)"
  proof (cases "sw_cached_at response")
    case None
    then show ?thesis by (simp add: isExpired_def)
  next
    case (Some cachedAt)
    then show ?thesis
      by (cases cachedAt; cases "config_maxAgeSeconds cfgs cacheName")
         (auto simp: isExpired_def)
  qed
  then show ?thesis by auto
qed

theorem isExpired_characterisation_witness:
  "isExpired CACHE_CONFIGS \<lparr>status = 200, body = ''x'', sw_cached_at = Some (IsoDate 0), vary_star = False\<rparr>
      API_CACHE 86400001
   \<and> \<not> isExpired CACHE_CONFIGS \<lparr>status = 200, body = ''x'', sw_cached_at = Some (IsoDate 0), vary_star = False\<rparr>
      ''unconfigured'' 86400001"
proof -
  let ?r = "\<lparr>status = 200, body = ''x'', sw_cached_at = Some (IsoDate 0), vary_star = False\<rparr>"
  have api: "config_maxAgeSeconds CACHE_CONFIGS API_CACHE = Some 86400"
    by (simp add: config_maxAgeSeconds_def CACHE_CONFIGS_def API_CACHE_def STATIC_CACHE_def
          CACHE_VERSION_def)
  have none: "config_maxAgeSeconds CACHE_CONFIGS ''unconfigured'' = None"
    by (simp add: config_maxAgeSeconds_def CACHE_CONFIGS_def API_CACHE_def STATIC_CACHE_def
          PAGES_CACHE_def FONTS_CACHE_def IMAGES_CACHE_def CACHE_VERSION_def)
  have "\<exists>cachedTime maxAge.
          sw_cached_at ?r = Some (IsoDate cachedTime) \<and>
          config_maxAgeSeconds CACHE_CONFIGS API_CACHE = Some maxAge \<and> maxAge \<noteq> 0 \<and>
          86400001 - cachedTime > int maxAge * 1000"
    using api by simp
  then have a: "isExpired CACHE_CONFIGS ?r API_CACHE 86400001"
    using isExpired_characterisation [of CACHE_CONFIGS ?r API_CACHE 86400001] by blast
  have b: "\<not> isExpired CACHE_CONFIGS ?r ''unconfigured'' 86400001"
    using none isExpired_characterisation [of CACHE_CONFIGS ?r "''unconfigured''" 86400001]
    by blast
  from a b show ?thesis by blast
qed

section \<open>Claims about the entry limit\<close>

lemma length_cacheResponse:
  assumes "config_maxEntries cfgs cacheName = Some limit" "limit \<noteq> 0" "distinct (map fst cache)"
  shows "cacheResponse cfgs cache cacheName request r now
           = drop (length (cache_put cache request (addTimestamp r now)) - limit)
               (cache_put cache request (addTimestamp r now))"
  using assms
  by (simp add: cacheResponse_def Let_def enforceMaxEntries_truthy distinct_cache_put)

lemma distinct_cacheResponses:
  "distinct (map fst cache) \<Longrightarrow> distinct (map fst (cacheResponses cfgs cache cacheName ws))"
  by (induction ws arbitrary: cache) (auto simp: distinct_cacheResponse)

lemma length_cacheResponses:
  assumes "config_maxEntries cfgs cacheName = Some limit" "limit \<noteq> 0" "distinct (map fst cache)"
    and "ws \<noteq> [] \<or> length cache \<le> limit"
  shows "length (cacheResponses cfgs cache cacheName ws) \<le> limit"
  using assms(3,4)
proof (induction ws arbitrary: cache)
  case Nil
  then show ?case by simp
next
  case (Cons w ws)
  obtain request r now where w: "w = (request, r, now)" by (cases w)
  let ?c = "cacheResponse cfgs cache cacheName request r now"
  have "length ?c \<le> limit"
    using assms(1,2) Cons.prems(1) by (simp add: length_cacheResponse)
  moreover have "distinct (map fst ?c)" using Cons.prems(1) by (simp add: distinct_cacheResponse)
  ultimately show ?case using Cons.IH [of ?c] w by simp
qed

text \<open>
  What the truthiness test on \<^verbatim>\<open>maxEntries\<close> does to a table configured with a limit of 0:
  \<^verbatim>\<open>enforceMaxEntries\<close> returns before counting, and one write leaves one entry.
\<close>

theorem zero_maxEntries_counterexample:
  "\<not> length (cacheResponse (\<lambda>n. Some \<lparr>maxEntries = Some 0, maxAgeSeconds = None\<rparr>) []
               ''table'' ''A'' \<lparr>status = 200, body = ''a'', sw_cached_at = None, vary_star = False\<rparr> 0) \<le> 0"
  by (simp add: cacheResponse_def enforceMaxEntries_def config_maxEntries_def cache_put_def
        cache_delete_def)

text \<open>
  C3, as the code has it: for a table whose configured \<^verbatim>\<open>maxEntries\<close> is not 0, a write
  followed by overflow eviction leaves at most \<^verbatim>\<open>maxEntries\<close> entries, namely the last
  \<^verbatim>\<open>maxEntries\<close> of the insertion order, so that the oldest are the ones deleted and, when
  the write went over the limit, exactly \<^verbatim>\<open>maxEntries\<close> remain; the same bound holds after
  every sequence of such writes; and with a limit of 2, writing distinct keys A, B, C in
  order leaves the keys B and C.
\<close>

theorem write_keeps_maxEntries:
  assumes "config_maxEntries cfgs cacheName = Some limit" and "limit \<noteq> 0"
    and "distinct (map fst cache)"
  shows "(let written = cache_put cache request (addTimestamp r now);
              kept = cacheResponse cfgs cache cacheName request r now
          in length kept \<le> limit \<and> kept = drop (length written - limit) written \<and>
             (limit < length written \<longrightarrow> length kept = limit))
       \<and> (ws \<noteq> [] \<or> length cache \<le> limit \<longrightarrow>
            length (cacheResponses cfgs cache cacheName ws) \<le> limit)
       \<and> (limit = 2 \<and> A \<noteq> B \<and> B \<noteq> C \<and> A \<noteq> C \<longrightarrow>
            cache_keys (cacheResponses cfgs [] cacheName [(A, ra, ta), (B, rb, tb), (C, rc, tc)])
              = [B, C])"
proof -
  have one: "let written = cache_put cache request (addTimestamp r now);
              kept = cacheResponse cfgs cache cacheName request r now
          in length kept \<le> limit \<and> kept = drop (length written - limit) written \<and>
             (limit < length written \<longrightarrow> length kept = limit)"
    using assms by (simp add: Let_def length_cacheResponse)
  have many: "ws \<noteq> [] \<or> length cache \<le> limit \<longrightarrow>
            length (cacheResponses cfgs cache cacheName ws) \<le> limit"
    using assms length_cacheResponses by blast
  have scenario: "limit = 2 \<and> A \<noteq> B \<and> B \<noteq> C \<and> A \<noteq> C \<longrightarrow>
            cache_keys (cacheResponses cfgs [] cacheName [(A, ra, ta), (B, rb, tb), (C, rc, tc)])
              = [B, C]"
    using assms(1)
    by (auto simp: cacheResponse_def enforceMaxEntries_def Let_def cache_keys_def cache_put_def
          cache_delete_def)
  from one many scenario show ?thesis by blast
qed

theorem write_keeps_maxEntries_witness:
  "cache_keys (cacheResponses (\<lambda>n. Some \<lparr>maxEntries = Some 2, maxAgeSeconds = None\<rparr>) []
       ''table''
       [(''A'', \<lparr>status = 200, body = ''a'', sw_cached_at = None, vary_star = False\<rparr>, 1),
        (''B'', \<lparr>status = 200, body = ''b'', sw_cached_at = None, vary_star = False\<rparr>, 2),
        (''C'', \<lparr>status = 200, body = ''c'', sw_cached_at = None, vary_star = False\<rparr>, 3)]) = [''B'', ''C'']
   \<and> length (cacheResponses (\<lambda>n. Some \<lparr>maxEntries = Some 2, maxAgeSeconds = None\<rparr>) []
       ''table''
       [(''A'', \<lparr>status = 200, body = ''a'', sw_cached_at = None, vary_star = False\<rparr>, 1),
        (''B'', \<lparr>status = 200, body = ''b'', sw_cached_at = None, vary_star = False\<rparr>, 2),
        (''C'', \<lparr>status = 200, body = ''c'', sw_cached_at = None, vary_star = False\<rparr>, 3)]) \<le> 2"
proof -
  let ?cfgs = "\<lambda>n::string. Some \<lparr>maxEntries = Some 2, maxAgeSeconds = None\<rparr>"
  have cfg: "config_maxEntries ?cfgs ''table'' = Some 2" by (simp add: config_maxEntries_def)
  have nz: "(2::nat) \<noteq> 0" by simp
  have d: "distinct (map fst ([] :: (string, response) cache))" by simp
  have ne: "''A'' \<noteq> ''B'' \<and> ''B'' \<noteq> ''C'' \<and> ''A'' \<noteq> ''C''" by simp
  show ?thesis
    using write_keeps_maxEntries [OF cfg nz d,
        where ws = "[(''A'', \<lparr>status = 200, body = ''a'', sw_cached_at = None, vary_star = False\<rparr>, 1),
                     (''B'', \<lparr>status = 200, body = ''b'', sw_cached_at = None, vary_star = False\<rparr>, 2),
                     (''C'', \<lparr>status = 200, body = ''c'', sw_cached_at = None, vary_star = False\<rparr>, 3)]"
          and A = "''A''" and B = "''B''" and C = "''C''"
          and ra = "\<lparr>status = 200, body = ''a'', sw_cached_at = None, vary_star = False\<rparr>" and ta = 1
          and rb = "\<lparr>status = 200, body = ''b'', sw_cached_at = None, vary_star = False\<rparr>" and tb = 2
          and rc = "\<lparr>status = 200, body = ''c'', sw_cached_at = None, vary_star = False\<rparr>" and tc = 3] ne
    by blast
qed

section \<open>Claims about writes under one request\<close>

lemma count_request_put:
  "filter (\<lambda>e. fst e = request) (cache_put cache request r) = [(request, r)]"
  by (simp add: cache_put_def cache_delete_def)

lemma filter_request_notin:
  "request \<notin> S \<Longrightarrow>
   filter (\<lambda>e. fst e = request) (filter (\<lambda>e. fst e \<notin> S) xs) = filter (\<lambda>e. fst e = request) xs"
  by (induction xs) auto

lemma count_request_enforce_put:
  "filter (\<lambda>e. fst e = request) (enforceMaxEntries cfgs (cache_put cache request r) cacheName)
     = [(request, r)]"
proof (cases "config_maxEntries cfgs cacheName")
  case None
  then show ?thesis by (simp add: enforceMaxEntries_def count_request_put)
next
  case (Some limit)
  show ?thesis
  proof (cases "limit = 0 \<or> length (cache_put cache request r) \<le> limit")
    case True
    with Some show ?thesis
      by (auto simp: enforceMaxEntries_def Let_def length_cache_keys count_request_put)
  next
    case False
    then have pos: "0 < limit" by simp
    have "enforceMaxEntries cfgs (cache_put cache request r) cacheName
          = filter (\<lambda>e. fst e \<notin> set (take (length (cache_put cache request r) - limit)
                                  (cache_keys (cache_put cache request r))))
                      (cache_put cache request r)"
      using Some False
      by (simp add: enforceMaxEntries_def Let_def length_cache_keys fold_cache_delete)
    then have "filter (\<lambda>e. fst e = request)
                 (enforceMaxEntries cfgs (cache_put cache request r) cacheName)
          = filter (\<lambda>e. fst e = request)
              (filter (\<lambda>e. fst e \<notin> set (take (length (cache_put cache request r) - limit)
                                  (cache_keys (cache_put cache request r))))
                      (cache_put cache request r))"
      by (rule arg_cong)
    also have "\<dots> = filter (\<lambda>e. fst e = request) (cache_put cache request r)"
      using request_not_evicted [OF pos, where request = request and cache = cache and r = r]
      by (rule filter_request_notin)
    also have "\<dots> = [(request, r)]" by (rule count_request_put)
    finally show ?thesis .
  qed
qed

text \<open>
  C8: writing a response for a request that already has an entry leaves exactly one entry
  for that request, and it is the second response with the second stamp. This holds for
  the write path of the strategies (stamp, \<^verbatim>\<open>put\<close>, overflow eviction) and for a bare
  \<^verbatim>\<open>put\<close>; and no sequence of writes into an empty cache produces two entries with
  the same request.
\<close>

theorem write_same_request_twice:
  "(let once = cacheResponse cfgs cache cacheName request r1 t1;
        twice = cacheResponse cfgs once cacheName request r2 t2
    in filter (\<lambda>e. fst e = request) twice = [(request, addTimestamp r2 t2)] \<and>
       cache_match twice request = Some (addTimestamp r2 t2) \<and>
       sw_cached_at (addTimestamp r2 t2) = Some (IsoDate t2) \<and>
       body (addTimestamp r2 t2) = body r2)
   \<and> (let twice = cache_put (cache_put cache request r1) request r2
      in filter (\<lambda>e. fst e = request) twice = [(request, r2)] \<and>
         cache_match twice request = Some r2)
   \<and> distinct (cache_keys (cacheResponses cfgs [] cacheName ws))"
proof -
  have "distinct (map fst (cacheResponses cfgs [] cacheName ws))"
    by (rule distinct_cacheResponses) simp
  then show ?thesis
    by (simp add: Let_def cacheResponse_def count_request_enforce_put cache_match_enforce_put
          count_request_put cache_match_put addTimestamp_def cache_keys_def)
qed

theorem write_same_request_twice_witness:
  "filter (\<lambda>e. fst e = ''/api/models'')
     (cacheResponse CACHE_CONFIGS
        (cacheResponse CACHE_CONFIGS [] API_CACHE ''/api/models''
           \<lparr>status = 200, body = ''first'', sw_cached_at = None, vary_star = False\<rparr> 10)
        API_CACHE ''/api/models'' \<lparr>status = 200, body = ''second'', sw_cached_at = None, vary_star = False\<rparr> 20)
   = [(''/api/models'', \<lparr>status = 200, body = ''second'', sw_cached_at = Some (IsoDate 20), vary_star = False\<rparr>)]"
proof -
  let ?once = "cacheResponse CACHE_CONFIGS [] API_CACHE ''/api/models''
        \<lparr>status = 200, body = ''first'', sw_cached_at = None, vary_star = False\<rparr> 10"
  let ?twice = "cacheResponse CACHE_CONFIGS ?once API_CACHE ''/api/models''
        \<lparr>status = 200, body = ''second'', sw_cached_at = None, vary_star = False\<rparr> 20"
  have "filter (\<lambda>e. fst e = ''/api/models'') ?twice
      = [(''/api/models'', addTimestamp \<lparr>status = 200, body = ''second'', sw_cached_at = None, vary_star = False\<rparr> 20)]"
    using write_same_request_twice [of CACHE_CONFIGS "[]" API_CACHE "''/api/models''"
        "\<lparr>status = 200, body = ''first'', sw_cached_at = None, vary_star = False\<rparr>" 10
        "\<lparr>status = 200, body = ''second'', sw_cached_at = None, vary_star = False\<rparr>" 20 "[]"]
    unfolding Let_def by blast
  then show ?thesis by (simp add: addTimestamp_def)
qed

section \<open>Claims about responses without a stamp\<close>

text \<open>
  C10: a cached response without the \<^verbatim>\<open>sw-cached-at\<close> header (a precached response is
  stored as the server sent it, never through \<^verbatim>\<open>addTimestamp\<close>) is not expired for any
  table configuration and any clock reading, so the cache-first strategy returns it without
  a fetch and the stale-while-revalidate strategy returns it as fresh.
\<close>

theorem unstamped_response_never_expires:
  assumes "sw_cached_at response = None"
  shows "\<not> isExpired cfgs response cacheName now
     \<and> (cache_match cache request = Some response \<longrightarrow>
          result (cacheFirstStrategy cfgs cache request cacheName now net stamp) = Returns response
        \<and> fetch_calls (cacheFirstStrategy cfgs cache request cacheName now net stamp) = 0
        \<and> result (staleWhileRevalidateStrategy cfgs cache request cacheName now net stamp)
            = Returns response)"
proof -
  have fresh: "\<not> isExpired cfgs response cacheName now"
    using assms by (simp add: isExpired_def)
  then have "cache_match cache request = Some response \<Longrightarrow>
      freshResponse cfgs cache request cacheName now = Some response"
    by (simp add: freshResponse_def)
  then show ?thesis using fresh
    by (auto simp: cacheFirstStrategy_def staleWhileRevalidateStrategy_def split: prod.splits)
qed

theorem unstamped_response_never_expires_witness:
  "\<not> isExpired CACHE_CONFIGS \<lparr>status = 200, body = ''manifest'', sw_cached_at = None, vary_star = False\<rparr>
        STATIC_CACHE 99999999999999
   \<and> result (cacheFirstStrategy CACHE_CONFIGS
        [(''/manifest.json'', \<lparr>status = 200, body = ''manifest'', sw_cached_at = None, vary_star = False\<rparr>)]
        ''/manifest.json'' STATIC_CACHE 99999999999999 NeverSettles 0)
      = Returns \<lparr>status = 200, body = ''manifest'', sw_cached_at = None, vary_star = False\<rparr>"
proof -
  let ?r = "\<lparr>status = 200, body = ''manifest'', sw_cached_at = None, vary_star = False\<rparr>"
  have h: "sw_cached_at ?r = None" by simp
  have m: "cache_match [(''/manifest.json'', ?r)] ''/manifest.json'' = Some ?r"
    by (simp add: cache_match_def)
  show ?thesis
    using unstamped_response_never_expires [OF h, of CACHE_CONFIGS STATIC_CACHE 99999999999999
        "[(''/manifest.json'', ?r)]" "''/manifest.json''" NeverSettles 0] m
    by blast
qed

section \<open>Claims about the cache-first strategy\<close>

lemma freshResponse_Some_iff:
  "freshResponse cfgs cache request cacheName now = Some cached \<longleftrightarrow>
     cache_match cache request = Some cached \<and> \<not> isExpired cfgs cached cacheName now"
  by (auto simp: freshResponse_def split: option.splits)


lemma cacheFirstStrategy_put_rejected:
  assumes "freshResponse cfgs cache request cacheName now = None" "ok networkResponse"
    "put_rejects networkResponse"
  shows "cacheFirstStrategy cfgs cache request cacheName now
           (Settles t (Fulfilled networkResponse)) stamp
         = cacheFirst_catch cache request PutRejected"
  using assms by (simp add: cacheFirstStrategy_def Let_def put_rejects_addTimestamp)




section \<open>Claims about the stale-while-revalidate strategy\<close>

text \<open>
  C1 asks that, with no usable cached entry, a failure of the network call reaches the
  caller. The code at that input: the cache is empty and the fetch is rejected. The
  \<^verbatim>\<open>catch\<close> handler attached to \<^verbatim>\<open>networkPromise\<close> logs a warning and fulfils the promise
  with \<^verbatim>\<open>undefined\<close>, which is what the caller gets; the \<^verbatim>\<open>throw error\<close> of the strategy's
  own \<^verbatim>\<open>catch\<close> block is not reached. The cache-first and network-first strategies throw
  the error of the fetch at the same input.
\<close>

theorem staleWhileRevalidate_failure_not_thrown:
  "staleWhileRevalidateStrategy CACHE_CONFIGS ([] :: (string, response) cache) ''/'' PAGES_CACHE
      1000 (Settles 40 (Rejected (FetchError ''Failed to fetch''))) 1040
     = \<lparr>result = ReturnsUndefined, cache_after = [], fetch_calls = 1,
        console = [ConsoleWarn ''Background update failed:'' (FetchError ''Failed to fetch'')]\<rparr>
   \<and> result (cacheFirstStrategy CACHE_CONFIGS ([] :: (string, response) cache) ''/'' PAGES_CACHE
        1000 (Settles 40 (Rejected (FetchError ''Failed to fetch''))) 1040)
     = Throws (FetchError ''Failed to fetch'')
   \<and> result (networkFirstStrategy CACHE_CONFIGS ([] :: (string, response) cache) ''/'' PAGES_CACHE
        None (Settles 40 (Rejected (FetchError ''Failed to fetch''))) 1040)
     = Throws (FetchError ''Failed to fetch'')"
  by (simp add: staleWhileRevalidateStrategy_def networkPromise_def freshResponse_def
        cache_match_def cacheFirstStrategy_def cacheFirst_catch_def networkFirstStrategy_def
        networkFirst_catch_def Promise_race_def)

section \<open>Claims about the network-first strategy\<close>

lemma networkFirstStrategy_put_rejected:
  assumes "t \<le> (case timeout_arg of None \<Rightarrow> 3000 | Some ms \<Rightarrow> ms)" "ok networkResponse"
    "put_rejects networkResponse"
  shows "networkFirstStrategy cfgs cache request cacheName timeout_arg
           (Settles t (Fulfilled networkResponse)) stamp
         = networkFirst_catch cache request PutRejected"
  using assms
  by (simp add: networkFirstStrategy_def Promise_race_def Let_def put_rejects_addTimestamp)

text \<open>
  A response that arrives after the timer has fired: the request has an old entry, the
  default timeout of 3000 ms applies, and the fetch is fulfilled after 5000 ms with a
  response that is \<^verbatim>\<open>ok\<close>. The cache is left as it was; the late response is not in it.
  And a response that wins the race but that the cache does not accept: with nothing stored,
  a response of status 206 arriving after 50 ms is not returned; the caller gets the error
  of the rejected \<^verbatim>\<open>cache.put\<close>.
\<close>

theorem late_response_counterexample:
  "cache_after (networkFirstStrategy CACHE_CONFIGS
      [(''/api/models'', \<lparr>status = 200, body = ''old'', sw_cached_at = Some (IsoDate 0), vary_star = False\<rparr>)]
      ''/api/models'' API_CACHE None
      (Settles 5000 (Fulfilled \<lparr>status = 200, body = ''new'', sw_cached_at = None, vary_star = False\<rparr>)) 5000)
     = [(''/api/models'', \<lparr>status = 200, body = ''old'', sw_cached_at = Some (IsoDate 0), vary_star = False\<rparr>)]
   \<and> cache_match (cache_after (networkFirstStrategy CACHE_CONFIGS
      [(''/api/models'', \<lparr>status = 200, body = ''old'', sw_cached_at = Some (IsoDate 0), vary_star = False\<rparr>)]
      ''/api/models'' API_CACHE None
      (Settles 5000 (Fulfilled \<lparr>status = 200, body = ''new'', sw_cached_at = None, vary_star = False\<rparr>)) 5000))
      ''/api/models''
     \<noteq> Some (addTimestamp \<lparr>status = 200, body = ''new'', sw_cached_at = None, vary_star = False\<rparr> 5000)
   \<and> result (networkFirstStrategy CACHE_CONFIGS [] ''/clip.mp4'' PAGES_CACHE None
      (Settles 50 (Fulfilled \<lparr>status = 206, body = ''part'', sw_cached_at = None, vary_star = False\<rparr>)) 50)
     = Throws PutRejected"
  by (simp add: networkFirstStrategy_def networkFirst_catch_def Promise_race_def cache_match_def
        addTimestamp_def ok_def put_rejects_def Let_def)

text \<open>
  C2, as the code has it. With \<open>timeout\<close> the third argument, or 3000 ms without one: a
  fetch fulfilled within the timeout with a response that is \<^verbatim>\<open>ok\<close> and that the cache
  accepts is returned as it came, and the cache then holds for the request a copy stamped
  with the clock reading of the capture, written at the end of the insertion order and
  followed by the overflow eviction; a fetch rejected within the timeout gives the stored
  response when there is one, and its own error otherwise; a fetch that settles after the
  timeout, in whatever way, changes nothing compared to a fetch that never settles: the
  caller gets the stored response, or the timeout error when nothing is stored, and the
  cache stays as it was.
\<close>

theorem networkFirstStrategy_behaviour:
  "(let timeout = (case timeout_arg of None \<Rightarrow> 3000 | Some ms \<Rightarrow> ms);
        strategy = networkFirstStrategy cfgs cache request cacheName timeout_arg;
        stamped = networkResponse\<lparr>sw_cached_at := Some (IsoDate stamp)\<rparr>;
        written = filter (\<lambda>e. fst e \<noteq> request) cache @ [(request, stamped)]
    in (t \<le> timeout \<and> ok networkResponse \<and> \<not> put_rejects networkResponse \<longrightarrow>
          result (strategy (Settles t (Fulfilled networkResponse)) stamp) = Returns networkResponse \<and>
          cache_match (cache_after (strategy (Settles t (Fulfilled networkResponse)) stamp)) request
            = Some stamped \<and>
          (config_maxEntries cfgs cacheName = None \<or> config_maxEntries cfgs cacheName = Some 0
             \<longrightarrow> cache_after (strategy (Settles t (Fulfilled networkResponse)) stamp) = written) \<and>
          (distinct (map fst cache) \<and> config_maxEntries cfgs cacheName = Some limit \<and>
           limit \<noteq> 0 \<longrightarrow>
             cache_after (strategy (Settles t (Fulfilled networkResponse)) stamp)
               = drop (length written - limit) written))
     \<and> (t \<le> timeout \<longrightarrow>
          result (strategy (Settles t (Rejected err)) stamp)
            = (case cache_match cache request of
                 Some cachedResponse \<Rightarrow> Returns cachedResponse
               | None \<Rightarrow> Throws err) \<and>
          cache_after (strategy (Settles t (Rejected err)) stamp) = cache)
     \<and> (timeout < t \<longrightarrow>
          strategy (Settles t outcome) stamp = strategy NeverSettles stamp)
     \<and> result (strategy NeverSettles stamp)
          = (case cache_match cache request of
               Some cachedResponse \<Rightarrow> Returns cachedResponse
             | None \<Rightarrow> Throws NetworkTimeout)
     \<and> cache_after (strategy NeverSettles stamp) = cache)"
proof -
  define timeout where "timeout = (case timeout_arg of None \<Rightarrow> 3000 | Some ms \<Rightarrow> ms)"
  let ?stamped = "networkResponse\<lparr>sw_cached_at := Some (IsoDate stamp)\<rparr>"
  let ?written = "filter (\<lambda>e. fst e \<noteq> request) cache @ [(request, ?stamped)]"
  let ?won = "networkFirstStrategy cfgs cache request cacheName timeout_arg
                (Settles t (Fulfilled networkResponse)) stamp"
  have first: "result ?won = Returns networkResponse \<and>
          cache_match (cache_after ?won) request = Some ?stamped \<and>
          (config_maxEntries cfgs cacheName = None \<or> config_maxEntries cfgs cacheName = Some 0
             \<longrightarrow> cache_after ?won = ?written) \<and>
          (distinct (map fst cache) \<and> config_maxEntries cfgs cacheName = Some limit \<and>
           limit \<noteq> 0 \<longrightarrow> cache_after ?won = drop (length ?written - limit) ?written)"
    if early: "t \<le> timeout" and good: "ok networkResponse" "\<not> put_rejects networkResponse"
  proof -
    have run: "?won = \<lparr>result = Returns networkResponse,
                       cache_after =
                         cacheResponse cfgs cache cacheName request networkResponse stamp,
                       fetch_calls = 1, console = []\<rparr>"
      using early good
      by (simp add: networkFirstStrategy_def Promise_race_def Let_def put_rejects_addTimestamp
            timeout_def)
    have stored: "cache_match (cacheResponse cfgs cache cacheName request networkResponse stamp)
                    request = Some ?stamped"
      by (simp add: cache_match_cacheResponse addTimestamp_def)
    have unlimited: "config_maxEntries cfgs cacheName = None \<or>
        config_maxEntries cfgs cacheName = Some 0 \<longrightarrow>
        cacheResponse cfgs cache cacheName request networkResponse stamp = ?written"
      by (rule impI) (rule cacheResponse_unlimited)
    have limited: "distinct (map fst cache) \<and> config_maxEntries cfgs cacheName = Some limit \<and>
        limit \<noteq> 0 \<longrightarrow>
        cacheResponse cfgs cache cacheName request networkResponse stamp
          = drop (length ?written - limit) ?written"
      by (intro impI, elim conjE) (rule cacheResponse_limited)
    show ?thesis using stored unlimited limited by (simp add: run)
  qed
  have failed: "t \<le> timeout \<longrightarrow>
          result (networkFirstStrategy cfgs cache request cacheName timeout_arg
                    (Settles t (Rejected err)) stamp)
            = (case cache_match cache request of
                 Some cachedResponse \<Rightarrow> Returns cachedResponse
               | None \<Rightarrow> Throws err) \<and>
          cache_after (networkFirstStrategy cfgs cache request cacheName timeout_arg
                    (Settles t (Rejected err)) stamp) = cache"
    by (simp add: networkFirstStrategy_def networkFirst_catch_def Promise_race_def Let_def
          timeout_def split: option.split)
  have late: "timeout < t \<longrightarrow>
          networkFirstStrategy cfgs cache request cacheName timeout_arg (Settles t outcome) stamp
          = networkFirstStrategy cfgs cache request cacheName timeout_arg NeverSettles stamp"
    by (simp add: networkFirstStrategy_def Promise_race_def Let_def timeout_def)
  have never: "result (networkFirstStrategy cfgs cache request cacheName timeout_arg
                    NeverSettles stamp)
          = (case cache_match cache request of
               Some cachedResponse \<Rightarrow> Returns cachedResponse
             | None \<Rightarrow> Throws NetworkTimeout)
     \<and> cache_after (networkFirstStrategy cfgs cache request cacheName timeout_arg
                    NeverSettles stamp) = cache"
    by (simp add: networkFirstStrategy_def networkFirst_catch_def Promise_race_def Let_def
          split: option.split)
  from first failed late never show ?thesis
    unfolding Let_def timeout_def by blast
qed

theorem networkFirstStrategy_behaviour_witness:
  "result (networkFirstStrategy CACHE_CONFIGS
      [(''/api/models'', \<lparr>status = 200, body = ''old'', sw_cached_at = Some (IsoDate 0), vary_star = False\<rparr>)]
      ''/api/models'' API_CACHE None
      (Settles 50 (Fulfilled \<lparr>status = 200, body = ''new'', sw_cached_at = None, vary_star = False\<rparr>)) 50)
     = Returns \<lparr>status = 200, body = ''new'', sw_cached_at = None, vary_star = False\<rparr>
   \<and> cache_after (networkFirstStrategy CACHE_CONFIGS
      [(''/api/models'', \<lparr>status = 200, body = ''old'', sw_cached_at = Some (IsoDate 0), vary_star = False\<rparr>)]
      ''/api/models'' API_CACHE None
      (Settles 50 (Fulfilled \<lparr>status = 200, body = ''new'', sw_cached_at = None, vary_star = False\<rparr>)) 50)
     = [(''/api/models'', \<lparr>status = 200, body = ''new'', sw_cached_at = Some (IsoDate 50), vary_star = False\<rparr>)]
   \<and> result (networkFirstStrategy CACHE_CONFIGS
      [(''/api/models'', \<lparr>status = 200, body = ''old'', sw_cached_at = Some (IsoDate 0), vary_star = False\<rparr>)]
      ''/api/models'' API_CACHE None
      (Settles 3000 (Fulfilled \<lparr>status = 200, body = ''new'', sw_cached_at = None, vary_star = False\<rparr>)) 3000)
     = Returns \<lparr>status = 200, body = ''new'', sw_cached_at = None, vary_star = False\<rparr>
   \<and> networkFirstStrategy CACHE_CONFIGS
      [(''/api/models'', \<lparr>status = 200, body = ''old'', sw_cached_at = Some (IsoDate 0), vary_star = False\<rparr>)]
      ''/api/models'' API_CACHE None
      (Settles 5000 (Fulfilled \<lparr>status = 200, body = ''new'', sw_cached_at = None, vary_star = False\<rparr>)) 5000
     = networkFirstStrategy CACHE_CONFIGS
      [(''/api/models'', \<lparr>status = 200, body = ''old'', sw_cached_at = Some (IsoDate 0), vary_star = False\<rparr>)]
      ''/api/models'' API_CACHE None NeverSettles 5000
   \<and> result (networkFirstStrategy CACHE_CONFIGS
      [(''/api/models'', \<lparr>status = 200, body = ''old'', sw_cached_at = Some (IsoDate 0), vary_star = False\<rparr>)]
      ''/api/models'' API_CACHE (Some 100) (Settles 20 (Rejected (FetchError ''offline''))) 0)
     = Returns \<lparr>status = 200, body = ''old'', sw_cached_at = Some (IsoDate 0), vary_star = False\<rparr>"
proof -
  let ?old = "\<lparr>status = 200, body = ''old'', sw_cached_at = Some (IsoDate 0), vary_star = False\<rparr>"
  let ?new = "\<lparr>status = 200, body = ''new'', sw_cached_at = None, vary_star = False\<rparr>"
  let ?cache = "[(''/api/models'', ?old)]"
  have early: "50 \<le> (case None :: nat option of None \<Rightarrow> 3000 | Some ms \<Rightarrow> ms) \<and> ok ?new \<and>
               \<not> put_rejects ?new"
    by (simp add: ok_def put_rejects_def)
  have tie: "3000 \<le> (case None :: nat option of None \<Rightarrow> 3000 | Some ms \<Rightarrow> ms) \<and> ok ?new \<and>
             \<not> put_rejects ?new"
    by (simp add: ok_def put_rejects_def)
  have late: "(case None :: nat option of None \<Rightarrow> 3000 | Some ms \<Rightarrow> ms) < (5000 :: nat)"
    by simp
  have quick: "20 \<le> (case Some 100 of None \<Rightarrow> 3000 | Some ms \<Rightarrow> (ms :: nat))"
    by simp
  have limit: "distinct (map fst ?cache) \<and> config_maxEntries CACHE_CONFIGS API_CACHE = Some 50 \<and>
               (50 :: nat) \<noteq> 0"
    by (simp add: config_maxEntries_def CACHE_CONFIGS_def API_CACHE_def STATIC_CACHE_def
          CACHE_VERSION_def)
  note won = networkFirstStrategy_behaviour [where cfgs = CACHE_CONFIGS and cache = ?cache
      and request = "''/api/models''" and cacheName = API_CACHE and timeout_arg = None
      and t = 50 and networkResponse = ?new and stamp = 50 and err = NetworkTimeout
      and outcome = "Fulfilled ?new" and limit = 50,
      unfolded Let_def, THEN conjunct1, THEN mp, OF early]
  note tied = networkFirstStrategy_behaviour [where cfgs = CACHE_CONFIGS and cache = ?cache
      and request = "''/api/models''" and cacheName = API_CACHE and timeout_arg = None
      and t = 3000 and networkResponse = ?new and stamp = 3000 and err = NetworkTimeout
      and outcome = "Fulfilled ?new" and limit = 50,
      unfolded Let_def, THEN conjunct1, THEN mp, OF tie]
  note lost = networkFirstStrategy_behaviour [where cfgs = CACHE_CONFIGS and cache = ?cache
      and request = "''/api/models''" and cacheName = API_CACHE and timeout_arg = None
      and t = 5000 and networkResponse = ?new and stamp = 5000 and err = NetworkTimeout
      and outcome = "Fulfilled ?new" and limit = 50,
      unfolded Let_def, THEN conjunct2, THEN conjunct2, THEN conjunct1, THEN mp, OF late]
  note down = networkFirstStrategy_behaviour [where cfgs = CACHE_CONFIGS and cache = ?cache
      and request = "''/api/models''" and cacheName = API_CACHE and timeout_arg = "Some 100"
      and t = 20 and networkResponse = ?new and stamp = 0 and err = "FetchError ''offline''"
      and outcome = "Fulfilled ?new" and limit = 50,
      unfolded Let_def, THEN conjunct2, THEN conjunct1, THEN mp, OF quick, THEN conjunct1]
  have stored: "cache_match ?cache ''/api/models'' = Some ?old" by (simp add: cache_match_def)
  note f1 = won [THEN conjunct1]
  note evicted = won [THEN conjunct2, THEN conjunct2, THEN conjunct2, THEN mp, OF limit]
  have f2: "cache_after (networkFirstStrategy CACHE_CONFIGS ?cache ''/api/models'' API_CACHE None
              (Settles 50 (Fulfilled ?new)) 50)
            = [(''/api/models'', \<lparr>status = 200, body = ''new'', sw_cached_at = Some (IsoDate 50), vary_star = False\<rparr>)]"
    using evicted by simp
  note f3 = tied [THEN conjunct1]
  note f5 = down [unfolded stored option.case]
  show ?thesis by (rule conjI [OF f1 conjI [OF f2 conjI [OF f3 conjI [OF lost f5]]]])
qed

section \<open>Claims about expired entries: reads and the cleanup sweep\<close>

lemma map_of_distinct_entry:
  "distinct (map fst cache) \<Longrightarrow> e \<in> set cache \<Longrightarrow> map_of cache (fst e) = Some (snd e)"
  by (cases e) simp

lemma sweep_step:
  assumes "distinct (map fst c)"
  shows "(case cache_match c request of
            None \<Rightarrow> c
          | Some response \<Rightarrow>
              if isExpired cfgs response cacheName (clock request)
              then cache_delete c request else c)
         = filter (\<lambda>e. \<not> (fst e = request \<and> isExpired cfgs (snd e) cacheName (clock (fst e)))) c"
proof (cases "cache_match c request")
  case None
  then have "\<forall>e \<in> set c. fst e \<noteq> request"
    by (auto simp: cache_match_def map_of_eq_None_iff)
  then have "filter (\<lambda>e. \<not> (fst e = request \<and> isExpired cfgs (snd e) cacheName (clock (fst e)))) c = c"
    by (simp add: filter_id_conv)
  with None show ?thesis by simp
next
  case (Some response)
  have same: "\<forall>e \<in> set c. fst e = request \<longrightarrow> snd e = response"
  proof (intro ballI impI)
    fix e assume "e \<in> set c" "fst e = request"
    then have "map_of c request = Some (snd e)"
      using map_of_distinct_entry [OF assms] by blast
    with Some show "snd e = response" by (simp add: cache_match_def)
  qed
  show ?thesis
  proof (cases "isExpired cfgs response cacheName (clock request)")
    case True
    have "filter (\<lambda>e. \<not> (fst e = request \<and> isExpired cfgs (snd e) cacheName (clock (fst e)))) c
          = filter (\<lambda>e. fst e \<noteq> request) c"
      using same True by (intro filter_cong refl) auto
    with Some True show ?thesis by (simp add: cache_delete_def)
  next
    case False
    have "filter (\<lambda>e. \<not> (fst e = request \<and> isExpired cfgs (snd e) cacheName (clock (fst e)))) c = c"
      using same False by (auto simp: filter_id_conv)
    with Some False show ?thesis by simp
  qed
qed

lemma sweep_fold:
  assumes "distinct (map fst c)"
  shows "fold (\<lambda>request c.
             case cache_match c request of
               None \<Rightarrow> c
             | Some response \<Rightarrow>
                 if isExpired cfgs response cacheName (clock request)
                 then cache_delete c request else c) ks c
         = filter (\<lambda>e. \<not> (fst e \<in> set ks \<and> isExpired cfgs (snd e) cacheName (clock (fst e)))) c"
  using assms
proof (induction ks arbitrary: c)
  case Nil
  show ?case by simp
next
  case (Cons k ks)
  let ?step = "\<lambda>request c.
             case cache_match c request of
               None \<Rightarrow> c
             | Some response \<Rightarrow>
                 if isExpired cfgs response cacheName (clock request)
                 then cache_delete c request else c"
  let ?c' = "filter (\<lambda>e. \<not> (fst e = k \<and> isExpired cfgs (snd e) cacheName (clock (fst e)))) c"
  have d: "distinct (map fst ?c')" using Cons.prems by (simp add: distinct_map_filter)
  have "fold ?step (k # ks) c = fold ?step ks (?step k c)" by simp
  also have "?step k c = ?c'" by (rule sweep_step [OF Cons.prems])
  also have "fold ?step ks ?c'
      = filter (\<lambda>e. \<not> (fst e \<in> set ks \<and> isExpired cfgs (snd e) cacheName (clock (fst e)))) ?c'"
    by (rule Cons.IH [OF d])
  also have "\<dots> = filter (\<lambda>e. \<not> (fst e \<in> set (k # ks) \<and>
                                isExpired cfgs (snd e) cacheName (clock (fst e)))) c"
    unfolding filter_filter by (rule filter_cong) auto
  finally show ?case .
qed

lemma cleanupCache_filter:
  assumes "distinct (map fst cache)"
  shows "cleanupCache cfgs cacheName clock cache
         = filter (\<lambda>(request, response). \<not> isExpired cfgs response cacheName (clock request)) cache"
proof -
  have "cleanupCache cfgs cacheName clock cache
        = filter (\<lambda>e. \<not> (fst e \<in> set (cache_keys cache) \<and>
                           isExpired cfgs (snd e) cacheName (clock (fst e)))) cache"
    unfolding cleanupCache_def by (rule sweep_fold [OF assms])
  also have "\<dots> = filter (\<lambda>(request, response).
                        \<not> isExpired cfgs response cacheName (clock request)) cache"
    by (rule filter_cong) (auto simp: cache_keys_def)
  finally show ?thesis .
qed

lemma cacheFirst_cache_after:
  "cache_after (cacheFirstStrategy cfgs cache request cacheName now net stamp) = cache \<or>
   (\<exists>t nr. net = Settles t (Fulfilled nr) \<and> ok nr \<and>
      cache_after (cacheFirstStrategy cfgs cache request cacheName now net stamp)
        = cacheResponse cfgs cache cacheName request nr stamp)"
  by (auto simp: cacheFirstStrategy_def cacheFirst_catch_def Let_def
           split: option.splits fetch_run.splits settlement.splits)

lemma networkFirst_cache_after:
  "cache_after (networkFirstStrategy cfgs cache request cacheName timeout_arg net stamp) = cache \<or>
   (\<exists>t nr. net = Settles t (Fulfilled nr) \<and> ok nr \<and>
      cache_after (networkFirstStrategy cfgs cache request cacheName timeout_arg net stamp)
        = cacheResponse cfgs cache cacheName request nr stamp)"
  by (auto simp: networkFirstStrategy_def networkFirst_catch_def Promise_race_def Let_def
           split: option.splits fetch_run.splits settlement.splits if_splits)

lemma staleWhileRevalidate_cache_after:
  "cache_after (staleWhileRevalidateStrategy cfgs cache request cacheName now net stamp) = cache \<or>
   (\<exists>t nr. net = Settles t (Fulfilled nr) \<and> ok nr \<and>
      cache_after (staleWhileRevalidateStrategy cfgs cache request cacheName now net stamp)
        = cacheResponse cfgs cache cacheName request nr stamp)"
  by (auto simp: staleWhileRevalidateStrategy_def networkPromise_def Let_def
           split: option.splits fetch_run.splits settlement.splits prod.splits if_splits)

lemma cleanupCaches_filter:
  assumes "\<forall>named \<in> set storage. distinct (cache_keys (snd named))"
  shows "cleanupCaches cfgs clock storage
         = map (\<lambda>(cacheName, cache).
                  (cacheName,
                   if cfgs cacheName = None then cache
                   else filter (\<lambda>(request, response).
                                  \<not> isExpired cfgs response cacheName (clock cacheName request))
                          cache))
               storage"
  unfolding cleanupCaches_def
proof (rule map_cong [OF refl])
  fix named assume "named \<in> set storage"
  then have "distinct (map fst (snd named))" using assms by (simp add: cache_keys_def)
  then show "(case named of (cacheName, cache) \<Rightarrow>
                case cfgs cacheName of
                  None \<Rightarrow> (cacheName, cache)
                | Some config \<Rightarrow> (cacheName, cleanupCache cfgs cacheName (clock cacheName) cache))
             = (case named of (cacheName, cache) \<Rightarrow>
                  (cacheName,
                   if cfgs cacheName = None then cache
                   else filter (\<lambda>(request, response).
                                  \<not> isExpired cfgs response cacheName (clock cacheName request))
                          cache))"
    by (cases named) (auto simp: cleanupCache_filter split: option.splits)
qed

text \<open>
  C7: the cleanup sweep leaves caches without a configuration alone and deletes from each
  configured cache exactly the entries that \<^verbatim>\<open>isExpired\<close> reports when it examines them, all
  others staying where they are (each cache holds one entry per request). A strategy never
  deletes an entry for being expired: without a network response that is \<^verbatim>\<open>ok\<close> the run of
  any of the three strategies leaves the cache as it was, and with one the cache is the old
  one after that response was written and the overflow eviction run; an expired entry only
  fails the freshness test.
\<close>

theorem reads_keep_and_sweep_deletes_expired:
  assumes "\<forall>named \<in> set storage. distinct (cache_keys (snd named))"
  shows "cleanupCaches cfgs clock storage
           = map (\<lambda>(cacheName, cache).
                    (cacheName,
                     if cfgs cacheName = None then cache
                     else filter (\<lambda>(request, response).
                                    \<not> isExpired cfgs response cacheName (clock cacheName request))
                            cache))
                 storage
     \<and> ((\<forall>t nr. net = Settles t (Fulfilled nr) \<longrightarrow> \<not> ok nr) \<longrightarrow>
          cache_after (cacheFirstStrategy cfgs cache request cacheName now net stamp) = cache \<and>
          cache_after (networkFirstStrategy cfgs cache request cacheName timeout_arg net stamp)
            = cache \<and>
          cache_after (staleWhileRevalidateStrategy cfgs cache request cacheName now net stamp)
            = cache)
     \<and> (\<forall>after \<in> {cache_after (cacheFirstStrategy cfgs cache request cacheName now net stamp),
                     cache_after (networkFirstStrategy cfgs cache request cacheName timeout_arg net
                                    stamp),
                     cache_after (staleWhileRevalidateStrategy cfgs cache request cacheName now net
                                    stamp)}.
          after = cache \<or>
          (\<exists>nr. ok nr \<and> after = cacheResponse cfgs cache cacheName request nr stamp))
     \<and> (cache_match cache request = Some cached \<and> isExpired cfgs cached cacheName now \<longrightarrow>
          freshResponse cfgs cache request cacheName now = None)"
proof -
  note cf = cacheFirst_cache_after [of cfgs cache request cacheName now net stamp]
  note nf = networkFirst_cache_after [of cfgs cache request cacheName timeout_arg net stamp]
  note sw = staleWhileRevalidate_cache_after [of cfgs cache request cacheName now net stamp]
  have quiet: "(\<forall>t nr. net = Settles t (Fulfilled nr) \<longrightarrow> \<not> ok nr) \<longrightarrow>
          cache_after (cacheFirstStrategy cfgs cache request cacheName now net stamp) = cache \<and>
          cache_after (networkFirstStrategy cfgs cache request cacheName timeout_arg net stamp)
            = cache \<and>
          cache_after (staleWhileRevalidateStrategy cfgs cache request cacheName now net stamp)
            = cache"
    using cf nf sw by blast
  have either: "\<forall>after \<in> {cache_after (cacheFirstStrategy cfgs cache request cacheName now net stamp),
                     cache_after (networkFirstStrategy cfgs cache request cacheName timeout_arg net
                                    stamp),
                     cache_after (staleWhileRevalidateStrategy cfgs cache request cacheName now net
                                    stamp)}.
          after = cache \<or>
          (\<exists>nr. ok nr \<and> after = cacheResponse cfgs cache cacheName request nr stamp)"
    using cf nf sw by blast
  have absent: "cache_match cache request = Some cached \<and> isExpired cfgs cached cacheName now \<longrightarrow>
          freshResponse cfgs cache request cacheName now = None"
    by (simp add: freshResponse_def)
  from cleanupCaches_filter [OF assms, of cfgs clock] quiet either absent
  show ?thesis by blast
qed

theorem reads_keep_and_sweep_deletes_expired_witness:
  "cleanupCaches CACHE_CONFIGS (\<lambda>cacheName request. 86400001)
      [(API_CACHE,
        [(''/api/a'', \<lparr>status = 200, body = ''a'', sw_cached_at = Some (IsoDate 0), vary_star = False\<rparr>),
         (''/api/b'', \<lparr>status = 200, body = ''b'', sw_cached_at = Some (IsoDate 86400000), vary_star = False\<rparr>)]),
       (''legacy-store'',
        [(''/x'', \<lparr>status = 200, body = ''x'', sw_cached_at = Some (IsoDate 0), vary_star = False\<rparr>)])]
     = [(API_CACHE,
        [(''/api/b'', \<lparr>status = 200, body = ''b'', sw_cached_at = Some (IsoDate 86400000), vary_star = False\<rparr>)]),
       (''legacy-store'',
        [(''/x'', \<lparr>status = 200, body = ''x'', sw_cached_at = Some (IsoDate 0), vary_star = False\<rparr>)])]
   \<and> cache_after (cacheFirstStrategy CACHE_CONFIGS
        [(''/api/a'', \<lparr>status = 200, body = ''a'', sw_cached_at = Some (IsoDate 0), vary_star = False\<rparr>)]
        ''/api/a'' API_CACHE 86400001 (Settles 10 (Rejected (FetchError ''offline''))) 0)
     = [(''/api/a'', \<lparr>status = 200, body = ''a'', sw_cached_at = Some (IsoDate 0), vary_star = False\<rparr>)]"
proof -
  let ?a = "\<lparr>status = 200, body = ''a'', sw_cached_at = Some (IsoDate 0), vary_star = False\<rparr>"
  let ?b = "\<lparr>status = 200, body = ''b'', sw_cached_at = Some (IsoDate 86400000), vary_star = False\<rparr>"
  let ?x = "\<lparr>status = 200, body = ''x'', sw_cached_at = Some (IsoDate 0), vary_star = False\<rparr>"
  let ?storage = "[(API_CACHE, [(''/api/a'', ?a), (''/api/b'', ?b)]), (''legacy-store'', [(''/x'', ?x)])]"
  let ?net = "Settles 10 (Rejected (FetchError ''offline'')) :: response fetch_run"
  have d: "\<forall>named \<in> set ?storage. distinct (cache_keys (snd named))"
    by (simp add: cache_keys_def)
  have api: "CACHE_CONFIGS API_CACHE = Some \<lparr>maxEntries = Some 50, maxAgeSeconds = Some 86400\<rparr>"
    by (simp add: CACHE_CONFIGS_def API_CACHE_def STATIC_CACHE_def CACHE_VERSION_def)
  have legacy: "CACHE_CONFIGS ''legacy-store'' = None"
    by (simp add: CACHE_CONFIGS_def API_CACHE_def STATIC_CACHE_def PAGES_CACHE_def
          FONTS_CACHE_def IMAGES_CACHE_def CACHE_VERSION_def)
  have quiet: "\<forall>t nr. ?net = Settles t (Fulfilled nr) \<longrightarrow> \<not> ok nr" by simp
  note th = reads_keep_and_sweep_deletes_expired [OF d, where cfgs = CACHE_CONFIGS
      and clock = "\<lambda>cacheName request. 86400001" and net = ?net
      and cache = "[(''/api/a'', ?a)]" and request = "''/api/a''" and cacheName = API_CACHE
      and now = 86400001 and stamp = 0 and timeout_arg = None and cached = ?a]
  have sweep: "cleanupCaches CACHE_CONFIGS (\<lambda>cacheName request. 86400001) ?storage
      = [(API_CACHE, [(''/api/b'', ?b)]), (''legacy-store'', [(''/x'', ?x)])]"
    using th [THEN conjunct1] api legacy
    by (simp add: isExpired_def config_maxAgeSeconds_def)
  note reads = th [THEN conjunct2, THEN conjunct1, THEN mp, OF quiet, THEN conjunct1]
  show ?thesis by (rule conjI [OF sweep reads])
qed

section \<open>Claims about the sync queue and the conversation store\<close>

lemma set_map_filter:
  "set (List.map_filter f xs) = {y. \<exists>x \<in> set xs. f x = Some y}"
  by (induction xs) (auto split: option.splits)

lemma attempt_bound:
  assumes "retryCount item \<le> maxRetries item" "attempt success item = Some item'"
  shows "retryCount item' \<le> maxRetries item' \<and> maxRetries item' = maxRetries item"
  using assms by (auto simp: attempt_def Let_def split: if_splits)

lemma processItem_bound:
  "retryCount item \<le> maxRetries item \<Longrightarrow> processItem outcomes item = Some item' \<Longrightarrow>
   retryCount item' \<le> maxRetries item'"
proof (induction outcomes arbitrary: item)
  case Nil
  then show ?case by simp
next
  case (Cons success rest)
  show ?case
  proof (cases "item_status item = Pending")
    case False
    with Cons.prems show ?thesis by simp
  next
    case True
    with Cons.prems obtain mid where
      mid: "attempt success (item\<lparr>item_status := Syncing\<rparr>) = Some mid"
      and rest: "processItem rest mid = Some item'"
      by (auto split: option.splits)
    have "retryCount mid \<le> maxRetries mid"
      using attempt_bound [OF _ mid] Cons.prems(1) by simp
    then show ?thesis using Cons.IH rest by blast
  qed
qed

lemma processItem_not_pending:
  "item_status item \<noteq> Pending \<Longrightarrow> processItem outcomes item = Some item"
  by (cases outcomes) simp_all

lemma queue_step_bound:
  assumes "\<forall>item \<in> set q. retryCount item \<le> maxRetries item"
  shows "\<forall>item \<in> set (queue_step q op). retryCount item \<le> maxRetries item"
proof (cases op)
  case (Enqueue item)
  with assms show ?thesis by (auto simp: enqueue_def)
next
  case (Drain outcomes)
  with assms show ?thesis
    by (auto simp: drain_def set_map_filter dest: processItem_bound)
next
  case (Remove i)
  with assms show ?thesis by (auto simp: remove_item_def)
next
  case Clear
  then show ?thesis by (simp add: clear_def)
next
  case Restart
  with assms show ?thesis by (auto simp: restart_def)
qed

lemma foldl_queue_step_bound:
  "\<forall>item \<in> set q. retryCount item \<le> maxRetries item \<Longrightarrow>
   \<forall>item \<in> set (foldl queue_step q ops). retryCount item \<le> maxRetries item"
proof (induction ops arbitrary: q)
  case Nil
  then show ?case by simp
next
  case (Cons op ops)
  from queue_step_bound [OF Cons.prems] have "\<forall>item \<in> set (queue_step q op). retryCount item \<le> maxRetries item" .
  from Cons.IH [OF this] show ?case by simp
qed

lemma failed_survives_drain:
  assumes "item \<in> set q" "item_status item = Failed"
  shows "item \<in> set (drain outcomes q)"
proof -
  have "processItem (outcomes (item_id item)) item = Some item"
    using assms(2) by (simp add: processItem_not_pending)
  then show ?thesis using assms(1) by (force simp: drain_def set_map_filter)
qed

text \<open>
  C6, on the queue as the specification describes it: after any sequence of enqueue,
  drain, remove, clear and restart, every item in the queue has \<open>retryCount\<close> at most
  \<open>maxRetries\<close>; a failed attempt never takes \<open>retryCount\<close> past \<open>maxRetries\<close>, leaves the item
  failed when one more retry would reach or pass the ceiling, and never removes the item;
  a failed item is still in the queue after a drain, a restart, and an enqueue or removal
  of another id; and an item with \<open>maxRetries = 3\<close> that fails three times in a drain ends
  failed with \<open>retryCount = 3\<close>.
\<close>

theorem retryCount_never_exceeds_maxRetries:
  "(\<forall>item \<in> set (queue_run ops). retryCount item \<le> maxRetries item)
   \<and> (retryCount item \<le> maxRetries item \<and> attempt False item = Some item' \<longrightarrow>
        retryCount item' \<le> maxRetries item' \<and>
        (maxRetries item \<le> retryCount item + 1 \<longrightarrow> item_status item' = Failed))
   \<and> attempt False item \<noteq> None
   \<and> (item \<in> set q \<and> item_status item = Failed \<longrightarrow>
        item \<in> set (drain outcomes q) \<and> item \<in> set (restart q) \<and>
        (item_id other \<noteq> item_id item \<longrightarrow>
           item \<in> set (enqueue other q) \<and> item \<in> set (remove_item (item_id other) q)))
   \<and> (maxRetries item = 3 \<longrightarrow>
        map (\<lambda>i. (retryCount i, item_status i))
          (drain (\<lambda>i. [False, False, False]) (enqueue item [])) = [(3, Failed)])"
proof -
  have inv: "\<forall>item \<in> set (queue_run ops). retryCount item \<le> maxRetries item"
    unfolding queue_run_def by (rule foldl_queue_step_bound) simp
  have ceiling: "retryCount item \<le> maxRetries item \<and> attempt False item = Some item' \<longrightarrow>
        retryCount item' \<le> maxRetries item' \<and>
        (maxRetries item \<le> retryCount item + 1 \<longrightarrow> item_status item' = Failed)"
    by (auto simp: attempt_def Let_def split: if_splits)
  have kept: "attempt False item \<noteq> None"
    by (simp add: attempt_def Let_def)
  have persists: "item \<in> set q \<and> item_status item = Failed \<longrightarrow>
        item \<in> set (drain outcomes q) \<and> item \<in> set (restart q) \<and>
        (item_id other \<noteq> item_id item \<longrightarrow>
           item \<in> set (enqueue other q) \<and> item \<in> set (remove_item (item_id other) q))"
    by (auto simp: failed_survives_drain restart_def enqueue_def remove_item_def image_iff
          intro!: bexI [of _ item])
  have scenario: "maxRetries item = 3 \<longrightarrow>
        map (\<lambda>i. (retryCount i, item_status i))
          (drain (\<lambda>i. [False, False, False]) (enqueue item [])) = [(3, Failed)]"
    by (simp add: drain_def enqueue_def List.map_filter_simps attempt_def Let_def)
  from inv ceiling kept persists scenario show ?thesis by blast
qed

theorem retryCount_never_exceeds_maxRetries_witness:
  "list_all (\<lambda>i. retryCount i \<le> maxRetries i)
     (queue_run
        [Enqueue \<lparr>item_id = ''a1'', item_type = ''SEND_MESSAGE'', payload = ''hi'', timestamp = 1,
                  retryCount = 0, maxRetries = 3, item_status = Pending, item_error = None\<rparr>,
         Drain (\<lambda>i. [False, False, False, False]), Restart, Drain (\<lambda>i. [True])])
   \<and> map (\<lambda>i. (retryCount i, item_status i))
       (queue_run
        [Enqueue \<lparr>item_id = ''a1'', item_type = ''SEND_MESSAGE'', payload = ''hi'', timestamp = 1,
                  retryCount = 0, maxRetries = 3, item_status = Pending, item_error = None\<rparr>,
         Drain (\<lambda>i. [False, False, False, False]), Restart, Drain (\<lambda>i. [True])])
     = [(3, Failed)]
   \<and> map (\<lambda>i. (retryCount i, item_status i))
       (drain (\<lambda>i. [False, False, False])
          (enqueue \<lparr>item_id = ''a1'', item_type = ''SEND_MESSAGE'', payload = ''hi'',
                     timestamp = 1, retryCount = 0, maxRetries = 3, item_status = Pending,
                     item_error = None\<rparr> []))
     = [(3, Failed)]"
proof -
  let ?item = "\<lparr>item_id = ''a1'', item_type = ''SEND_MESSAGE'', payload = ''hi'', timestamp = 1,
                  retryCount = 0, maxRetries = 3, item_status = Pending, item_error = None\<rparr>"
  let ?ops = "[Enqueue ?item, Drain (\<lambda>i. [False, False, False, False]), Restart,
               Drain (\<lambda>i. [True])]"
  note th = retryCount_never_exceeds_maxRetries [where ops = ?ops and item = ?item
      and item' = ?item and other = ?item and q = "[]" and outcomes = "\<lambda>i. []"]
  have bound: "list_all (\<lambda>i. retryCount i \<le> maxRetries i) (queue_run ?ops)"
    using th [THEN conjunct1] by (simp only: list_all_iff)
  have run: "map (\<lambda>i. (retryCount i, item_status i)) (queue_run ?ops) = [(3, Failed)]"
    by (simp add: queue_run_def enqueue_def drain_def attempt_def restart_def Let_def)
  have three: "maxRetries ?item = 3" by simp
  note scenario = th [THEN conjunct2, THEN conjunct2, THEN conjunct2, THEN conjunct2, THEN mp,
      OF three]
  show ?thesis by (rule conjI [OF bound conjI [OF run scenario]])
qed

text \<open>
  C9, on the store as the specification describes it: \<^verbatim>\<open>getConversation\<close> for an id with no
  stored conversation gives \<^verbatim>\<open>null\<close>, not an error; the only error it ever gives is the
  store's own fault, whether or not the id is there.
\<close>

theorem getConversation_missing_is_null:
  "(store i = None \<longrightarrow> getConversation None store i = Inr None)
   \<and> (getConversation fault store i = Inl e \<longleftrightarrow> fault = Some e)
   \<and> getConversation None (\<lambda>k. None) i = Inr None
   \<and> (store i = None \<and> conversation_id conversation \<noteq> i \<and>
        storeConversation None store conversation = Inr store' \<longrightarrow>
        getConversation None store' i = Inr None)"
  by (auto simp: getConversation_def storeConversation_def split: option.splits)

theorem getConversation_missing_is_null_witness:
  "getConversation None
     ((\<lambda>k. None)(''thread-1'' \<mapsto>
        \<lparr>conversation_id = ''thread-1'', thread = ''hello'', lastModified = 7, syncStatus = Synced\<rparr>))
     ''missing'' = Inr None"
proof -
  let ?conversation =
    "\<lparr>conversation_id = ''thread-1'', thread = ''hello'', lastModified = 7, syncStatus = Synced\<rparr>"
  let ?store' = "(\<lambda>k. None)(''thread-1'' \<mapsto> ?conversation)"
  have stored: "(\<lambda>k. None) ''missing'' = (None :: cached_conversation option) \<and>
      conversation_id ?conversation \<noteq> ''missing'' \<and>
      storeConversation None (\<lambda>k. None) ?conversation = Inr ?store'"
    by (simp add: storeConversation_def)
  show ?thesis
    by (rule getConversation_missing_is_null [where store = "\<lambda>k. None" and i = "''missing''"
          and fault = None and e = "StoreError ''none''" and conversation = ?conversation
          and store' = ?store', THEN conjunct2, THEN conjunct2, THEN conjunct2, THEN mp,
          OF stored])
qed

end
